theory Spec2Isabelle
  imports Complex_Main "HOL-Library.AList"
begin

section \<open>JavaScript numbers\<close>

text \<open>
  A JavaScript number is an IEEE 754 binary64 value: a finite number, where zero carries a
  sign, an infinity of either sign, or NaN. \<open>Num q\<close> is the finite number of value \<open>q\<close>
  (\<open>Num 0\<close> is the positive zero), \<open>NegZero\<close> is \<open>-0\<close>, and the flag of \<open>Infinity\<close> is
  true for the negative one.
\<close>

datatype double = Num rat | NegZero | Infinity bool | NaN

fun negative :: "double \<Rightarrow> bool" where
  "negative (Num q) = (q < 0)"
| "negative NegZero = True"
| "negative (Infinity s) = s"
| "negative NaN = False"

fun val :: "double \<Rightarrow> rat" where
  "val (Num q) = q"
| "val NegZero = 0"
| "val (Infinity s) = 0"
| "val NaN = 0"

fun is_finite :: "double \<Rightarrow> bool" where
  "is_finite (Num q) = True"
| "is_finite NegZero = True"
| "is_finite (Infinity s) = False"
| "is_finite NaN = False"

definition signed_zero :: "bool \<Rightarrow> double" where
  "signed_zero s = (if s then NegZero else Num 0)"

text \<open>
  Rounding to the nearest double, ties to the even significand. \<open>exponent m\<close> is the
  binary exponent of a positive rational, \<open>quantum m\<close> the distance between neighbouring
  doubles at that magnitude (53 significant bits, and never below \<open>2 powi (- 1074)\<close>, the spacing of the
  subnormal numbers). A magnitude that rounds to \<open>2 powi 1024\<close> or more overflows to an
  infinity; one that rounds to zero keeps its sign.
\<close>

function exponent :: "rat \<Rightarrow> int" where
  "exponent m =
     (if m \<le> 0 then 0
      else if 2 \<le> m then exponent (m / 2) + 1
      else if m < 1 then exponent (m * 2) - 1
      else 0)"
  by pat_completeness auto
termination
proof (relation "measure (\<lambda>m. if 1 \<le> m then nat \<lfloor>m\<rfloor> else nat \<lceil>1 / m\<rceil>)")
  show "wf (measure (\<lambda>m :: rat. if 1 \<le> m then nat \<lfloor>m\<rfloor> else nat \<lceil>1 / m\<rceil>))"
    by simp
next
  fix m :: rat
  assume "\<not> m \<le> 0" and m: "2 \<le> m"
  have "m / 2 < of_int \<lfloor>m\<rfloor>"
    using m by linarith
  then have "\<lfloor>m / 2\<rfloor> < \<lfloor>m\<rfloor>"
    by (simp add: floor_less_iff)
  moreover have "0 < \<lfloor>m\<rfloor>" using m by linarith
  ultimately show "(m / 2, m) \<in> measure (\<lambda>m. if 1 \<le> m then nat \<lfloor>m\<rfloor> else nat \<lceil>1 / m\<rceil>)"
    using m by simp
next
  fix m :: rat
  assume p: "\<not> m \<le> 0" and "\<not> 2 \<le> m" and m: "m < 1"
  have big: "1 < 1 / m" using p m by simp
  then have c: "2 \<le> \<lceil>1 / m\<rceil>" by linarith
  show "(m * 2, m) \<in> measure (\<lambda>m. if 1 \<le> m then nat \<lfloor>m\<rfloor> else nat \<lceil>1 / m\<rceil>)"
  proof (cases "1 \<le> m * 2")
    case True
    then have "\<lfloor>m * 2\<rfloor> = 1" using m by linarith
    then show ?thesis using True m c by simp
  next
    case False
    then have "2 \<le> 1 / m" using p by (simp add: field_simps)
    then have "1 / (m * 2) \<le> of_int (\<lceil>1 / m\<rceil> - 1)"
      by (simp add: field_simps) linarith
    then have "\<lceil>1 / (m * 2)\<rceil> \<le> \<lceil>1 / m\<rceil> - 1"
      by (simp only: ceiling_le_iff)
    then show ?thesis using False m c p by simp
  qed
qed

declare exponent.simps [simp del]

definition quantum :: "rat \<Rightarrow> rat" where
  "quantum m = 2 powi (max (exponent m) (- 1022) - 52)"

definition round_half_even :: "rat \<Rightarrow> int" where
  "round_half_even t =
     (let n = \<lfloor>t\<rfloor>; f = t - of_int n
      in if f < 1 / 2 \<or> (f = 1 / 2 \<and> even n) then n else n + 1)"

definition rnd :: "rat \<Rightarrow> double" where
  "rnd r =
     (let m = of_int (round_half_even (\<bar>r\<bar> / quantum \<bar>r\<bar>)) * quantum \<bar>r\<bar>
      in if 1024 \<le> exponent m then Infinity (r < 0)
         else if m = 0 then signed_zero (r < 0)
         else Num (if r < 0 then - m else m))"

text \<open>
  The arithmetic operators \<open>+\<close>, \<open>-\<close>, \<open>*\<close> and \<open>/\<close>. NaN is contagious; infinities of
  opposite sign do not add, zero times infinity and zero by zero are NaN; an exact sum
  of zero is \<open>-0\<close> only when both summands are negative; the sign of a zero product or
  quotient is the exclusive or of the operands' signs.
\<close>

definition fneg :: "double \<Rightarrow> double" where
  "fneg a =
     (case a of
        Num q \<Rightarrow> if q = 0 then NegZero else Num (- q)
      | NegZero \<Rightarrow> Num 0
      | Infinity s \<Rightarrow> Infinity (\<not> s)
      | NaN \<Rightarrow> NaN)"

definition fadd :: "double \<Rightarrow> double \<Rightarrow> double" where
  "fadd a b =
     (if a = NaN \<or> b = NaN then NaN
      else if \<not> is_finite a then (if \<not> is_finite b \<and> negative a \<noteq> negative b then NaN else a)
      else if \<not> is_finite b then b
      else if val a + val b = 0 then signed_zero (negative a \<and> negative b)
      else rnd (val a + val b))"

definition fsub :: "double \<Rightarrow> double \<Rightarrow> double" where
  "fsub a b = fadd a (fneg b)"

definition fmul :: "double \<Rightarrow> double \<Rightarrow> double" where
  "fmul a b =
     (if a = NaN \<or> b = NaN then NaN
      else if \<not> is_finite a \<or> \<not> is_finite b then
        (if (is_finite a \<and> val a = 0) \<or> (is_finite b \<and> val b = 0) then NaN
         else Infinity (negative a \<noteq> negative b))
      else if val a * val b = 0 then signed_zero (negative a \<noteq> negative b)
      else rnd (val a * val b))"

definition fdiv :: "double \<Rightarrow> double \<Rightarrow> double" where
  "fdiv a b =
     (if a = NaN \<or> b = NaN then NaN
      else if \<not> is_finite a then
        (if \<not> is_finite b then NaN else Infinity (negative a \<noteq> negative b))
      else if \<not> is_finite b then signed_zero (negative a \<noteq> negative b)
      else if val b = 0 then (if val a = 0 then NaN else Infinity (negative a \<noteq> negative b))
      else if val a = 0 then signed_zero (negative a \<noteq> negative b)
      else rnd (val a / val b))"

text \<open>
  \<open>===\<close> on numbers: NaN equals nothing, the two zeros are equal. \<open>is_double\<close> holds of
  the values of the datatype that are doubles: rounding leaves them as they are.
\<close>

definition strict_equals :: "double \<Rightarrow> double \<Rightarrow> bool" where
  "strict_equals a b =
     (a \<noteq> NaN \<and> b \<noteq> NaN \<and> (a = b \<or> (is_finite a \<and> is_finite b \<and> val a = 0 \<and> val b = 0)))"

definition is_double :: "double \<Rightarrow> bool" where
  "is_double d = (case d of Num q \<Rightarrow> rnd q = Num q | _ \<Rightarrow> True)"

section \<open>Anchored position resolver (visuals/index.ts)\<close>

text \<open>
  The records \<open>Size\<close> and \<open>Parent\<close> take the type of their numbers as a parameter: the
  resolver computes with doubles, and the renderer's rectangles below have the same four
  fields.
\<close>

record anchors =
  self :: double
  parent :: double

record Position =
  "value" :: double
  anchors :: anchors

datatype dimension = X | Y

record 'n Size =
  width :: 'n
  height :: 'n

text \<open>\<^verbatim>\<open>type Parent = Center & Size\<close>: the centre and the extent of the frame.\<close>

record 'n Parent = "'n Size" +
  x :: 'n
  y :: 'n

definition point :: "double Size" where
  "point = \<lparr>width = Num 0, height = Num 0\<rparr>"

text \<open>
  \<^verbatim>\<open>const unit = dimension === "x" ? "width" : "height"\<close> selects a field name; the
  reads \<^verbatim>\<open>parent[dimension]\<close>, \<^verbatim>\<open>parent[unit]\<close> and \<^verbatim>\<open>self[unit]\<close> are the three
  functions below. The literals \<open>2\<close> and \<open>0.5\<close> are doubles; the operators associate to the
  left, with \<open>*\<close> and \<open>/\<close> binding tighter than \<open>+\<close> and \<open>-\<close>.
\<close>

definition parent_at :: "double Parent \<Rightarrow> dimension \<Rightarrow> double" where
  "parent_at p d = (case d of X \<Rightarrow> x p | Y \<Rightarrow> y p)"

definition unit_of :: "(double, 'a) Size_scheme \<Rightarrow> dimension \<Rightarrow> double" where
  "unit_of s d = (if d = X then width s else height s)"

definition resolvePosition :: "Position \<Rightarrow> dimension \<Rightarrow> double Size \<Rightarrow> double Parent \<Rightarrow> double" where
  "resolvePosition pos d slf p =
     fadd (fadd (fadd (fsub (parent_at p d) (fdiv (unit_of p d) (Num 2)))
                      (fmul (parent (anchors pos)) (unit_of p d)))
                (fmul (fsub (Num (1 / 2)) (self (anchors pos))) (unit_of slf d)))
          (fmul (unit_of p d) (value pos))"

section \<open>Registry, scope and snapshot (runtime.ts, index.ts)\<close>

text \<open>
  PIXI objects and the config objects of a snapshot are JavaScript objects with identity:
  a \<open>handle\<close> names a PIXI object and a \<open>config_ref\<close> names a config object, whose
  current contents are read from a store.
\<close>

type_synonym handle = nat
type_synonym config_ref = nat
type_synonym texture = nat
type_synonym textures = "(string \<times> texture) list"

datatype error = TypeError | Failure string

text \<open>
  The optional fields of \<open>PixiObject[Key]\<close> that the registry code reads (\<open>tag\<close>,
  \<open>parent\<close>, \<open>mask\<close>) and the field \<open>identifier\<close> that \<open>getHit\<close> writes. \<open>None\<close> is
  \<open>undefined\<close>.
\<close>

record config =
  tag :: "string option"
  parent :: "string option"
  mask :: "string option"
  "identifier" :: "string option"

type_synonym config_store = "config_ref \<Rightarrow> config"

text \<open>A string-valued optional property used as a condition: \<open>undefined\<close> and \<open>""\<close> are falsy.\<close>

definition truthy :: "string option \<Rightarrow> bool" where
  "truthy s = (case s of None \<Rightarrow> False | Some t \<Rightarrow> t \<noteq> [])"

text \<open>
  A JavaScript \<open>Map\<close> is an association list in insertion order: \<open>get\<close> is \<open>map_of\<close>,
  \<open>set\<close> is \<open>AList.update\<close> (in place for a key that is present, at the end otherwise),
  \<open>delete\<close> is \<open>AList.delete\<close>, \<open>clear\<close> gives \<open>[]\<close>.
\<close>

record lookup =
  byIdentifier :: "(string \<times> handle) list"
  byTag :: "(string \<times> handle list) list"
  configBy :: "(handle \<times> config_ref) list"
  identifierBy :: "(handle \<times> string) list"

definition createLookup :: lookup where
  "createLookup = \<lparr>byIdentifier = [], byTag = [], configBy = [], identifierBy = []\<rparr>"

record spritesheet =
  meta_image :: string

text \<open>
  \<open>Scope\<close>. The application is modelled by whether its ticker runs, the container by its
  handle; \<open>lookup_Sprite\<close> is \<open>scope.lookup.Sprite\<close>, and so on. The parent of a
  relationship may be \<open>undefined\<close> at run time (the non-null assertion of
  \<open>formRelationships\<close> is erased by the compiler), hence the \<open>handle option\<close>.
\<close>

record scope =
  app_started :: bool
  container :: handle
  assetPrefix :: "string option"
  lookup_Sprite :: lookup
  lookup_Filter :: lookup
  lookup_Graphic :: lookup
  lookup_Transition :: lookup
  childrenByParent :: "(handle option \<times> handle list) list"
  parentByChild :: "(handle \<times> handle option) list"
  startTimeSeconds :: real
  elapsedTimeSeconds :: real
  "alias" :: "(string \<times> string) list option"
  spritesheets :: "spritesheet list option"
  texturesFromSheet :: "textures option"

text \<open>
  \<open>RenderInput & AliasLookup\<close>. A section is a JavaScript object: its properties in
  enumeration order with distinct names, or \<open>undefined\<close>. An alias entry is its
  \<open>assetPath\<close>.
\<close>

record input =
  Sprite :: "(string \<times> config_ref) list option"
  Filter :: "(string \<times> config_ref) list option"
  Graphic :: "(string \<times> config_ref) list option"
  Transition :: "(string \<times> config_ref) list option"
  Alias :: "(string \<times> string) list"

section \<open>The renderer\<close>

text \<open>
  The part of PIXI's state that the code reads or writes. \<open>stage\<close> is
  \<open>scope.container.children\<close>; \<open>getBounds\<close>, \<open>zIndex\<close> and \<open>descendants\<close> are what
  the renderer answers for an object and are only changed by the renderer and the
  setters. \<open>PIXI.Sprite\<close> and \<open>PIXI.Graphics\<close> are subclasses of \<open>PIXI.Container\<close>.
  Bounds, z-indices and query points are modelled as real numbers: the hit test compares
  them, after forming the sums \<open>x + width\<close> and \<open>y + height\<close>.
\<close>

type_synonym Rectangle = "real Parent"

datatype scene_class = PIXI_Sprite | PIXI_Graphics | PIXI_Container

datatype scene_item =
    SceneItem handle scene_class Rectangle real "scene_item list"
  | DisplayObject handle Rectangle real

record pixi =
  next_handle :: handle
  kind :: "handle \<Rightarrow> scene_class"
  texture :: "handle \<Rightarrow> texture option"
  filters :: "handle \<Rightarrow> handle list option"
  mask_of :: "handle \<Rightarrow> handle option"
  stage :: "handle list"
  getBounds :: "handle \<Rightarrow> Rectangle"
  zIndex :: "handle \<Rightarrow> real"
  descendants :: "handle \<Rightarrow> scene_item list"

text \<open>A log of the calls the code makes to the factories and to \<open>destroy\<close>.\<close>

record journal =
  made :: "(scene_class \<times> string) list"
  destroyed :: "handle list"

text \<open>\<open>destroy()\<close> detaches a display object from its parent container.\<close>

definition destroy :: "handle \<Rightarrow> pixi \<Rightarrow> journal \<Rightarrow> pixi \<times> journal" where
  "destroy item px jn =
     (px\<lparr>stage := removeAll item (stage px)\<rparr>, jn\<lparr>destroyed := destroyed jn @ [item]\<rparr>)"

text \<open>\<open>addChild\<close> moves a child that is already attached to the end of the list.\<close>

definition addChild :: "handle \<Rightarrow> pixi \<Rightarrow> pixi" where
  "addChild item px = px\<lparr>stage := removeAll item (stage px) @ [item]\<rparr>"

text \<open>\<open>sortChildren\<close> orders the children by ascending \<open>zIndex\<close>, keeping the order of equals.\<close>

definition sortChildren :: "pixi \<Rightarrow> pixi" where
  "sortChildren px = px\<lparr>stage := sort_key (zIndex px) (stage px)\<rparr>"

text \<open>
  The factories of \<open>prepare\<close>: \<open>PIXI.Sprite.from(textures[identifier] ?? textures[locate(identifier)])\<close>
  and \<open>new PIXI.Graphics()\<close>. Each returns a new object; the constructors are taken to
  succeed.
\<close>

definition makeSprite ::
  "textures \<Rightarrow> (string \<Rightarrow> string) \<Rightarrow> string \<Rightarrow> pixi \<Rightarrow> journal \<Rightarrow> handle \<times> pixi \<times> journal" where
  "makeSprite txs locate ident px jn =
     (let sprite = next_handle px;
          tx = (case map_of txs ident of Some t \<Rightarrow> Some t | None \<Rightarrow> map_of txs (locate ident))
      in (sprite,
          px\<lparr>next_handle := Suc sprite, kind := (kind px)(sprite := PIXI_Sprite),
             texture := (texture px)(sprite := tx)\<rparr>,
          jn\<lparr>made := made jn @ [(PIXI_Sprite, ident)]\<rparr>))"

definition makeGraphic :: "string \<Rightarrow> pixi \<Rightarrow> journal \<Rightarrow> handle \<times> pixi \<times> journal" where
  "makeGraphic ident px jn =
     (let graphic = next_handle px
      in (graphic,
          px\<lparr>next_handle := Suc graphic, kind := (kind px)(graphic := PIXI_Graphics)\<rparr>,
          jn\<lparr>made := made jn @ [(PIXI_Graphics, ident)]\<rparr>))"

section \<open>Cleanup (runtime.ts)\<close>

text \<open>
  The loop of \<open>clean\<close> over the entries of \<open>lookup.byIdentifier\<close>, deleting the visited
  entry as it goes; \<open>keys\<close> is \<open>Object.keys(current)\<close>.
\<close>

fun clean_loop ::
  "(string \<times> handle) list \<Rightarrow> string list \<Rightarrow> lookup \<Rightarrow> pixi \<Rightarrow> journal \<Rightarrow> lookup \<times> pixi \<times> journal" where
  "clean_loop [] keys lk px jn = (lk, px, jn)"
| "clean_loop ((ident, item) # rest) keys lk px jn =
     (if ident \<in> set keys then clean_loop rest keys lk px jn
      else
        (let lk' = lk\<lparr>byIdentifier := AList.delete ident (byIdentifier lk),
                       configBy := AList.delete item (configBy lk)\<rparr>;
             (px', jn') = destroy item px jn
         in clean_loop rest keys lk' px' jn'))"

definition clean ::
  "(string \<times> config_ref) list option \<Rightarrow> lookup \<Rightarrow> pixi \<Rightarrow> journal \<Rightarrow> lookup \<times> pixi \<times> journal" where
  "clean current lk px jn =
     (case current of
        None \<Rightarrow> (lk, px, jn)
      | Some section \<Rightarrow>
          (let (lk', px', jn') = clean_loop (byIdentifier lk) (map fst section) lk px jn
           in (lk'\<lparr>byTag := []\<rparr>, px', jn')))"

definition getLocater :: "scope \<Rightarrow> string \<Rightarrow> string" where
  "getLocater sc ident = (case assetPrefix sc of None \<Rightarrow> [] | Some prefix \<Rightarrow> prefix) @ ident"

section \<open>Creation and relationships (visuals/index.ts, utils.ts)\<close>

definition setOrAppend :: "('k \<times> 'i list) list \<Rightarrow> 'k \<Rightarrow> 'i \<Rightarrow> ('k \<times> 'i list) list" where
  "setOrAppend m key item =
     (case map_of m key of
        Some items \<Rightarrow> AList.update key (items @ [item]) m
      | None \<Rightarrow> AList.update key [item] m)"

text \<open>
  The state \<open>create\<close> works on: the registry of the kind, the module's
  \<open>childrenByIdentifier\<close>, the renderer and the log.
\<close>

type_synonym create_state = "lookup \<times> (string \<times> handle list) list \<times> pixi \<times> journal"

fun create_loop ::
  "config_store \<Rightarrow> (string \<Rightarrow> pixi \<Rightarrow> journal \<Rightarrow> handle \<times> pixi \<times> journal) \<Rightarrow>
   (string \<times> config_ref) list \<Rightarrow> create_state \<Rightarrow> create_state" where
  "create_loop store factory [] st = st"
| "create_loop store factory ((ident, cref) # rest) (lk, cbi, px, jn) =
     (let config = store cref;
          (item, px1, jn1) =
             (case map_of (byIdentifier lk) ident of
                Some existing \<Rightarrow> (existing, px, jn)
              | None \<Rightarrow> factory ident px jn);
          px2 = px1\<lparr>filters := (filters px1)(item := Some [])\<rparr>;
          lk1 = lk\<lparr>byIdentifier := AList.update ident item (byIdentifier lk)\<rparr>;
          lk2 = (case tag config of
                   Some t \<Rightarrow> if t \<noteq> [] then lk1\<lparr>byTag := setOrAppend (byTag lk1) t item\<rparr> else lk1
                 | None \<Rightarrow> lk1);
          cbi1 = (case parent config of
                    Some p \<Rightarrow> if p \<noteq> [] then setOrAppend cbi p item else cbi
                  | None \<Rightarrow> cbi);
          lk3 = lk2\<lparr>configBy := AList.update item cref (configBy lk2),
                     identifierBy := AList.update item ident (identifierBy lk2)\<rparr>
      in create_loop store factory rest (lk3, cbi1, px2, jn1))"

text \<open>\<open>for (const identifier in configs)\<close> runs no iteration when \<open>configs\<close> is undefined.\<close>

definition create ::
  "config_store \<Rightarrow> (string \<times> config_ref) list option \<Rightarrow>
   (string \<Rightarrow> pixi \<Rightarrow> journal \<Rightarrow> handle \<times> pixi \<times> journal) \<Rightarrow> create_state \<Rightarrow> create_state" where
  "create store configs factory st =
     (case configs of None \<Rightarrow> st | Some section \<Rightarrow> create_loop store factory section st)"

text \<open>
  The names every plain object inherits from \<open>Object.prototype\<close>: \<open>alias[identifier]\<close> is
  defined for them also when the alias table has no such entry, and its \<open>assetPath\<close> is
  then undefined.
\<close>

definition object_prototype_keys :: "string list" where
  "object_prototype_keys =
     [''constructor'', ''hasOwnProperty'', ''isPrototypeOf'', ''propertyIsEnumerable'',
      ''toLocaleString'', ''toString'', ''valueOf'', ''__proto__'', ''__defineGetter__'',
      ''__defineSetter__'', ''__lookupGetter__'', ''__lookupSetter__'']"

text \<open>
  \<open>Sprite.byIdentifier.get(identifier) ?? Sprite.byIdentifier.get(alias[identifier].assetPath)\<close>:
  reading \<open>assetPath\<close> of \<open>undefined\<close> throws; a lookup that finds nothing gives
  \<open>undefined\<close>.
\<close>

definition resolve_parent ::
  "lookup \<Rightarrow> (string \<times> string) list option \<Rightarrow> string \<Rightarrow> error + handle option" where
  "resolve_parent sprites als ident =
     (case map_of (byIdentifier sprites) ident of
        Some p \<Rightarrow> Inr (Some p)
      | None \<Rightarrow>
          (case als of
             None \<Rightarrow> Inl TypeError
           | Some table \<Rightarrow>
               (case map_of table ident of
                  Some assetPath \<Rightarrow> Inr (map_of (byIdentifier sprites) assetPath)
                | None \<Rightarrow>
                    if ident \<in> set object_prototype_keys then Inr None else Inl TypeError)))"

fun formRelationships_loop :: "(string \<times> handle list) list \<Rightarrow> scope \<Rightarrow> error option \<times> scope" where
  "formRelationships_loop [] sc = (None, sc)"
| "formRelationships_loop ((ident, kids) # rest) sc =
     (case resolve_parent (lookup_Sprite sc) (alias sc) ident of
        Inl e \<Rightarrow> (Some e, sc)
      | Inr par \<Rightarrow>
          formRelationships_loop rest
            (sc\<lparr>childrenByParent := AList.update par kids (childrenByParent sc),
                parentByChild := fold (\<lambda>child m. AList.update child par m) kids (parentByChild sc)\<rparr>))"

definition formRelationships :: "scope \<Rightarrow> (string \<times> handle list) list \<Rightarrow> error option \<times> scope" where
  "formRelationships sc cbi = formRelationships_loop cbi sc"

section \<open>Collaborators outside the repository's core\<close>

text \<open>
  The functions the code calls whose source is not part of the registry core: the two
  asset loaders of \<open>load\<close> (they answer with textures or reject), the per-kind setters
  \<open>set\<close> of \<open>./sprite\<close> and \<open>draw\<close> of \<open>./graphic\<close> (they act on the renderable),
  \<open>configure\<close> of \<open>./filters\<close> and of \<open>./transitions\<close>, the ticker's update and the
  clock. Each may throw. They are parameters of the model.
\<close>

record externals =
  parse_spritesheets :: "string list \<Rightarrow> string list \<Rightarrow> error + textures"
  Assets_load :: "string list \<Rightarrow> error + textures"
  setSprite :: "handle \<Rightarrow> scope \<Rightarrow> config \<Rightarrow> pixi \<Rightarrow> error option \<times> pixi"
  drawGraphic :: "handle \<Rightarrow> scope \<Rightarrow> config \<Rightarrow> pixi \<Rightarrow> error option \<times> pixi"
  configureFilters :: "input \<Rightarrow> scope \<Rightarrow> pixi \<Rightarrow> error option \<times> scope \<times> pixi"
  configureTransitions :: "input \<Rightarrow> scope \<Rightarrow> pixi \<Rightarrow> error option \<times> scope \<times> pixi"
  ticker_update :: "scope \<Rightarrow> pixi \<Rightarrow> error option \<times> scope \<times> pixi"
  performance_now :: real

section \<open>Masks, initialisation and configure (visuals/index.ts)\<close>

fun setupMasks_loop ::
  "config_store \<Rightarrow> (string \<times> config_ref) list \<Rightarrow> scope \<Rightarrow> pixi \<Rightarrow> error option \<times> pixi" where
  "setupMasks_loop store [] sc px = (None, px)"
| "setupMasks_loop store ((spriteId, cref) # rest) sc px =
     (case mask (store cref) of
        None \<Rightarrow> setupMasks_loop store rest sc px
      | Some m \<Rightarrow>
          if m = [] then setupMasks_loop store rest sc px
          else
            (case map_of (byIdentifier (lookup_Sprite sc)) spriteId of
               None \<Rightarrow> (Some TypeError, px)
             | Some sprite \<Rightarrow>
                 setupMasks_loop store rest sc
                   (px\<lparr>mask_of := (mask_of px)
                        (sprite := map_of (byIdentifier (lookup_Graphic sc)) m)\<rparr>)))"

text \<open>\<open>Object.entries(Sprite)\<close> throws when the section is undefined.\<close>

definition setupMasks ::
  "config_store \<Rightarrow> (string \<times> config_ref) list option \<Rightarrow> scope \<Rightarrow> pixi \<Rightarrow> error option \<times> pixi" where
  "setupMasks store sprites sc px =
     (case sprites of
        None \<Rightarrow> (Some TypeError, px)
      | Some section \<Rightarrow> setupMasks_loop store section sc px)"

fun initialize_loop ::
  "config_store \<Rightarrow> (handle \<times> config_ref) list \<Rightarrow> scope \<Rightarrow>
   (handle \<Rightarrow> scope \<Rightarrow> config \<Rightarrow> pixi \<Rightarrow> error option \<times> pixi) \<Rightarrow> pixi \<Rightarrow> error option \<times> pixi" where
  "initialize_loop store [] sc setter px = (None, px)"
| "initialize_loop store ((item, cref) # rest) sc setter px =
     (let px1 = addChild item px
      in if map_of (parentByChild sc) item \<noteq> None then initialize_loop store rest sc setter px1
         else
           (case setter item sc (store cref) px1 of
              (Some e, px2) \<Rightarrow> (Some e, px2)
            | (None, px2) \<Rightarrow> initialize_loop store rest sc setter px2))"

definition initialize ::
  "config_store \<Rightarrow> lookup \<Rightarrow> scope \<Rightarrow>
   (handle \<Rightarrow> scope \<Rightarrow> config \<Rightarrow> pixi \<Rightarrow> error option \<times> pixi) \<Rightarrow> pixi \<Rightarrow> error option \<times> pixi" where
  "initialize store lk sc setter px = initialize_loop store (configBy lk) sc setter px"

text \<open>
  Everything \<open>prepare\<close> acts on: the scope, the renderer, the module variable
  \<open>childrenByIdentifier\<close> of visuals/index.ts and the log.
\<close>

record world =
  scope :: scope
  pixi :: pixi
  childrenByIdentifier :: "(string \<times> handle list) list"
  journal :: journal

text \<open>\<open>configure\<close> of visuals/index.ts, imported by the runtime as \<open>configureVisuals\<close>.\<close>

definition configureVisuals ::
  "externals \<Rightarrow> config_store \<Rightarrow> input \<Rightarrow>
   (string \<Rightarrow> pixi \<Rightarrow> journal \<Rightarrow> handle \<times> pixi \<times> journal) \<Rightarrow>
   (string \<Rightarrow> pixi \<Rightarrow> journal \<Rightarrow> handle \<times> pixi \<times> journal) \<Rightarrow> world \<Rightarrow> error option \<times> world" where
  "configureVisuals ext store inp makeS makeG w =
     (let sc = scope w;
          (lkG, cbi1, px1, jn1) =
             create store (Graphic inp) makeG (lookup_Graphic sc, [], pixi w, journal w);
          (lkS, cbi2, px2, jn2) =
             create store (Sprite inp) makeS (lookup_Sprite sc, cbi1, px1, jn1);
          sc1 = sc\<lparr>lookup_Graphic := lkG, lookup_Sprite := lkS\<rparr>;
          (r1, sc2) = formRelationships sc1 cbi2;
          w2 = \<lparr>scope = sc2, pixi = px2, childrenByIdentifier = cbi2, journal = jn2\<rparr>
      in case r1 of
           Some e \<Rightarrow> (Some e, w2)
         | None \<Rightarrow>
             (case setupMasks store (Sprite inp) sc2 px2 of
                (Some e, px3) \<Rightarrow> (Some e, w2\<lparr>pixi := px3\<rparr>)
              | (None, px3) \<Rightarrow>
                  (case initialize store (lookup_Sprite sc2) sc2 (setSprite ext) px3 of
                     (Some e, px4) \<Rightarrow> (Some e, w2\<lparr>pixi := px4\<rparr>)
                   | (None, px4) \<Rightarrow>
                       (case initialize store (lookup_Graphic sc2) sc2 (drawGraphic ext) px4 of
                          (r, px5) \<Rightarrow> (r, w2\<lparr>pixi := px5\<rparr>)))))"

section \<open>Loading and the reconciliation entry point (runtime.ts)\<close>

text \<open>
  \<open>createScope\<close>: empty registries and relationship maps, \<open>alias\<close> undefined. The
  container is the object \<open>stage_root\<close>; \<open>now\<close> is the clock's reading.
\<close>

definition createScope :: "handle \<Rightarrow> string option \<Rightarrow> spritesheet list option \<Rightarrow> real \<Rightarrow> scope" where
  "createScope stage_root prefix sheets now =
     \<lparr>app_started = True, container = stage_root, assetPrefix = prefix,
      lookup_Sprite = createLookup, lookup_Filter = createLookup,
      lookup_Graphic = createLookup, lookup_Transition = createLookup,
      childrenByParent = [], parentByChild = [],
      startTimeSeconds = now, elapsedTimeSeconds = 0,
      alias = None, spritesheets = sheets, texturesFromSheet = None\<rparr>"

text \<open>
  \<open>load\<close>. An array and an object are truthy also when empty; \<open>Object.keys(input.Sprite)\<close>
  throws when the section is undefined. A rejected promise is the \<open>Inl\<close> result.
\<close>

definition load ::
  "externals \<Rightarrow> scope \<Rightarrow> input \<Rightarrow> (string \<Rightarrow> string) \<Rightarrow> (error + textures) \<times> scope" where
  "load ext sc inp locate =
     (case spritesheets sc of
        Some sheets \<Rightarrow>
          (case texturesFromSheet sc of
             Some cached \<Rightarrow> (Inr cached, sc)
           | None \<Rightarrow>
               (case Sprite inp of
                  None \<Rightarrow> (Inl TypeError, sc)
                | Some sprites \<Rightarrow>
                    (case parse_spritesheets ext (map (\<lambda>sheet. locate (meta_image sheet)) sheets)
                            (map fst sprites) of
                       Inl e \<Rightarrow> (Inl e, sc)
                     | Inr txs \<Rightarrow> (Inr txs, sc\<lparr>texturesFromSheet := Some txs\<rparr>))))
      | None \<Rightarrow>
          (case Sprite inp of
             None \<Rightarrow> (Inl TypeError, sc)
           | Some sprites \<Rightarrow> (Assets_load ext (map (\<lambda>(ident, _). locate ident) sprites), sc)))"

text \<open>
  The statements of \<open>prepare\<close> before the load is awaited: stop the application, take the
  alias table, clean the three kinds in the order Sprite, Graphic, Filter, clear the four
  maps of the Transition registry and the two relationship maps.
\<close>

definition prepare_clean :: "input \<Rightarrow> world \<Rightarrow> world" where
  "prepare_clean inp w =
     (let sc = (scope w)\<lparr>app_started := False, alias := Some (Alias inp)\<rparr>;
          (lkS, px1, jn1) = clean (Sprite inp) (lookup_Sprite sc) (pixi w) (journal w);
          (lkG, px2, jn2) = clean (Graphic inp) (lookup_Graphic sc) px1 jn1;
          (lkF, px3, jn3) = clean (Filter inp) (lookup_Filter sc) px2 jn2
      in w\<lparr>scope := sc\<lparr>lookup_Sprite := lkS, lookup_Graphic := lkG, lookup_Filter := lkF,
                         lookup_Transition := createLookup,
                         parentByChild := [], childrenByParent := []\<rparr>,
            pixi := px3, journal := jn3\<rparr>)"

text \<open>
  The statements of \<open>prepare\<close> after \<open>configureVisuals\<close>: filters, transitions, the sort
  of the container's children, the clock, one ticker update, stop.
\<close>

definition prepare_finish :: "externals \<Rightarrow> input \<Rightarrow> world \<Rightarrow> error option \<times> world" where
  "prepare_finish ext inp w =
     (case configureFilters ext inp (scope w) (pixi w) of
        (Some e, sc1, px1) \<Rightarrow> (Some e, w\<lparr>scope := sc1, pixi := px1\<rparr>)
      | (None, sc1, px1) \<Rightarrow>
          (case configureTransitions ext inp sc1 px1 of
             (Some e, sc2, px2) \<Rightarrow> (Some e, w\<lparr>scope := sc2, pixi := px2\<rparr>)
           | (None, sc2, px2) \<Rightarrow>
               (let px3 = sortChildren px2;
                    sc3 = sc2\<lparr>elapsedTimeSeconds := 0, startTimeSeconds := performance_now ext\<rparr>
                in case ticker_update ext sc3 px3 of
                     (Some e, sc4, px4) \<Rightarrow> (Some e, w\<lparr>scope := sc4, pixi := px4\<rparr>)
                   | (None, sc4, px4) \<Rightarrow>
                       (None, w\<lparr>scope := sc4\<lparr>app_started := False\<rparr>, pixi := px4\<rparr>))))"

text \<open>
  \<open>prepare\<close>. The result is the error that reaches the caller, if any, and the state
  the call leaves behind: what a statement has written stays written when a later one
  throws.
\<close>

definition prepare :: "externals \<Rightarrow> config_store \<Rightarrow> input \<Rightarrow> world \<Rightarrow> error option \<times> world" where
  "prepare ext store inp w =
     (let w1 = prepare_clean inp w;
          locate = getLocater (scope w1)
      in case load ext (scope w1) inp locate of
           (Inl e, sc2) \<Rightarrow> (Some e, w1\<lparr>scope := sc2\<rparr>)
         | (Inr txs, sc2) \<Rightarrow>
             (case configureVisuals ext store inp (makeSprite txs locate) makeGraphic
                     (w1\<lparr>scope := sc2\<rparr>) of
                (Some e, w3) \<Rightarrow> (Some e, w3)
              | (None, w3) \<Rightarrow> prepare_finish ext inp w3))"

section \<open>Hit testing (runtime.ts)\<close>

fun handle_of :: "scene_item \<Rightarrow> handle" where
  "handle_of (SceneItem h c b z cs) = h"
| "handle_of (DisplayObject h b z) = h"

fun bounds_of :: "scene_item \<Rightarrow> Rectangle" where
  "bounds_of (SceneItem h c b z cs) = b"
| "bounds_of (DisplayObject h b z) = b"

fun zIndex_of :: "scene_item \<Rightarrow> real" where
  "zIndex_of (SceneItem h c b z cs) = z"
| "zIndex_of (DisplayObject h b z) = z"

text \<open>A display object that is not a container has no \<open>children\<close> property.\<close>

fun children :: "scene_item \<Rightarrow> scene_item list" where
  "children (SceneItem h c b z cs) = cs"
| "children (DisplayObject h b z) = []"

fun isSceneItem :: "scene_item \<Rightarrow> bool" where
  "isSceneItem (SceneItem h c b z cs) = True"
| "isSceneItem (DisplayObject h b z) = False"

fun instanceof :: "scene_item \<Rightarrow> scene_class \<Rightarrow> bool" where
  "instanceof (SceneItem h c b z cs) c' = (c = c')"
| "instanceof (DisplayObject h b z) c' = False"

text \<open>The test of \<open>traverse\<close> on the bounds of a child, for the query point \<open>(qx, qy)\<close>.\<close>

definition holds_point :: "Rectangle \<Rightarrow> real \<Rightarrow> real \<Rightarrow> bool" where
  "holds_point b qx qy = (qx \<ge> x b \<and> qx \<le> x b + width b \<and> qy \<ge> y b \<and> qy \<le> y b + height b)"

text \<open>
  The loop of \<open>traverse\<close>. Its first argument holds the children still to be visited,
  \<open>children[i]\<close> first and \<open>children[0]\<close> last; \<open>topmost\<close> is the variable
  \<open>topmostObject\<close> that all levels share. The loop returns after the first child whose
  bounds hold the point.
\<close>

function traverse ::
  "scene_item list \<Rightarrow> real \<Rightarrow> real \<Rightarrow> scene_item option \<Rightarrow> scene_item option" where
  "traverse [] qx qy topmost = topmost"
| "traverse (child # before) qx qy topmost =
     (if holds_point (bounds_of child) qx qy then
        (let topmost1 =
               (if isSceneItem child \<and> children child \<noteq> []
                then traverse (rev (children child)) qx qy topmost
                else topmost)
         in case topmost1 of
              None \<Rightarrow> Some child
            | Some t \<Rightarrow> if zIndex_of child > zIndex_of t then Some child else topmost1)
      else traverse before qx qy topmost)"
  by pat_completeness auto
termination
proof (relation "measure (\<lambda>(cs, qx, qy, topmost). size_list size cs)")
  show "wf (measure (\<lambda>(cs, qx, qy, topmost). size_list size cs))"
    by simp
next
  fix child :: scene_item and before and qx qy :: real and topmost :: "scene_item option"
  assume "isSceneItem child \<and> children child \<noteq> []"
  have flip: "size_list size (rev cs) = size_list size cs" for cs :: "scene_item list"
    by (induction cs) simp_all
  show "((rev (children child), qx, qy, topmost), (child # before, qx, qy, topmost))
          \<in> measure (\<lambda>(cs, qx, qy, topmost). size_list size cs)"
    by (cases child) (simp_all add: flip)
next
  fix child :: scene_item and before and qx qy :: real and topmost :: "scene_item option"
  show "((before, qx, qy, topmost), (child # before, qx, qy, topmost))
          \<in> measure (\<lambda>(cs, qx, qy, topmost). size_list size cs)"
    by simp
qed

definition findTopmostObjectAtPosition :: "scene_item \<Rightarrow> real \<Rightarrow> real \<Rightarrow> scene_item option" where
  "findTopmostObjectAtPosition top_item qx qy = traverse (rev (children top_item)) qx qy None"

text \<open>The display object behind a handle, and the container with its children.\<close>

definition item_of :: "pixi \<Rightarrow> handle \<Rightarrow> scene_item" where
  "item_of px h = SceneItem h (kind px h) (getBounds px h) (zIndex px h) (descendants px h)"

definition container_item :: "scope \<Rightarrow> pixi \<Rightarrow> scene_item" where
  "container_item sc px =
     SceneItem (container sc) PIXI_Container (getBounds px (container sc))
       (zIndex px (container sc)) (map (item_of px) (stage px))"

text \<open>What \<open>getHit\<close> posts: \<open>null\<close>, or the config as it is at the time of the call.\<close>

datatype message = Null | Config config

text \<open>
  \<open>getHit\<close>. The config found in the registry is an object: the assignment to its
  \<open>identifier\<close> property changes the store. Assigning to a property of \<open>undefined\<close>
  throws. A candidate that is neither a sprite nor a graphic posts nothing.
\<close>

definition hit_reply ::
  "lookup \<Rightarrow> handle \<Rightarrow> config_store \<Rightarrow> (error + message option) \<times> config_store" where
  "hit_reply lk result store =
     (case map_of (configBy lk) result of
        None \<Rightarrow> (Inl TypeError, store)
      | Some cref \<Rightarrow>
          (let store' = store(cref := (store cref)\<lparr>identifier := map_of (identifierBy lk) result\<rparr>)
           in (Inr (Some (Config (store' cref))), store')))"

definition getHit ::
  "scope \<Rightarrow> pixi \<Rightarrow> config_store \<Rightarrow> real \<Rightarrow> real \<Rightarrow> (error + message option) \<times> config_store" where
  "getHit sc px store qx qy =
     (case findTopmostObjectAtPosition (container_item sc px) qx qy of
        None \<Rightarrow> (Inr (Some Null), store)
      | Some result \<Rightarrow>
          if instanceof result PIXI_Sprite then hit_reply (lookup_Sprite sc) (handle_of result) store
          else if instanceof result PIXI_Graphics then hit_reply (lookup_Graphic sc) (handle_of result) store
          else (Inr None, store))"

section \<open>Vocabulary of the statements\<close>

text \<open>
  The entries of a registry whose identifier is not a key of the new section, and those
  whose identifier is one. For an undefined section nothing is absent.
\<close>

definition absent_entries :: "(string \<times> config_ref) list option \<Rightarrow> lookup \<Rightarrow> (string \<times> handle) list" where
  "absent_entries current lk =
     (case current of
        None \<Rightarrow> []
      | Some section \<Rightarrow> filter (\<lambda>(ident, item). ident \<notin> fst ` set section) (byIdentifier lk))"

definition kept_entries :: "(string \<times> config_ref) list option \<Rightarrow> lookup \<Rightarrow> (string \<times> handle) list" where
  "kept_entries current lk =
     (case current of
        None \<Rightarrow> byIdentifier lk
      | Some section \<Rightarrow> filter (\<lambda>(ident, item). ident \<in> fst ` set section) (byIdentifier lk))"

text \<open>
  One iteration of the loop of \<open>create\<close>, in three parts: the object it obtains (the
  registered one, or a new one from the factory), what it writes to the registry, and
  what it stages in \<open>childrenByIdentifier\<close>. \<open>entries\<close> reads a section that may be
  undefined.
\<close>

definition registered :: "config \<Rightarrow> string \<Rightarrow> config_ref \<Rightarrow> handle \<Rightarrow> lookup \<Rightarrow> lookup" where
  "registered config ident cref item lk =
     lk\<lparr>byIdentifier := AList.update ident item (byIdentifier lk),
        byTag := (case tag config of
                    Some t \<Rightarrow> if t \<noteq> [] then setOrAppend (byTag lk) t item else byTag lk
                  | None \<Rightarrow> byTag lk),
        configBy := AList.update item cref (configBy lk),
        identifierBy := AList.update item ident (identifierBy lk)\<rparr>"

definition staged :: "config \<Rightarrow> handle \<Rightarrow> (string \<times> handle list) list \<Rightarrow> (string \<times> handle list) list" where
  "staged config item cbi =
     (case parent config of
        Some p \<Rightarrow> if p \<noteq> [] then setOrAppend cbi p item else cbi
      | None \<Rightarrow> cbi)"

definition obtained ::
  "(string \<Rightarrow> pixi \<Rightarrow> journal \<Rightarrow> handle \<times> pixi \<times> journal) \<Rightarrow> string \<Rightarrow> lookup \<Rightarrow> pixi \<Rightarrow> journal \<Rightarrow> handle \<times> pixi \<times> journal" where
  "obtained factory ident lk px jn =
     (case map_of (byIdentifier lk) ident of
        Some existing \<Rightarrow> (existing, px, jn)
      | None \<Rightarrow> factory ident px jn)"

definition entries :: "'a list option \<Rightarrow> 'a list" where
  "entries current = (case current of None \<Rightarrow> [] | Some section \<Rightarrow> section)"

text \<open>
  The sprite and graphic kinds, with the section, the registry and the class of each
  (\<open>VisualKey\<close> of visuals/index.ts). \<open>bucket\<close> reads one tag of a registry's tag view,
  \<open>tagged\<close> lists the identifiers of a section whose config declares a tag, \<open>logs_as\<close>
  says that a factory records each call in the log.
\<close>

datatype VisualKey = Sprite_key | Graphic_key

fun section_of :: "VisualKey \<Rightarrow> input \<Rightarrow> (string \<times> config_ref) list option" where
  "section_of Sprite_key inp = Sprite inp"
| "section_of Graphic_key inp = Graphic inp"

fun registry_of :: "VisualKey \<Rightarrow> scope \<Rightarrow> lookup" where
  "registry_of Sprite_key sc = lookup_Sprite sc"
| "registry_of Graphic_key sc = lookup_Graphic sc"

fun class_of :: "VisualKey \<Rightarrow> scene_class" where
  "class_of Sprite_key = PIXI_Sprite"
| "class_of Graphic_key = PIXI_Graphics"

definition bucket :: "lookup \<Rightarrow> string \<Rightarrow> handle list" where
  "bucket lk t = (case map_of (byTag lk) t of None \<Rightarrow> [] | Some items \<Rightarrow> items)"

definition tagged :: "config_store \<Rightarrow> (string \<times> config_ref) list \<Rightarrow> string \<Rightarrow> string list" where
  "tagged store sec t = map fst (filter (\<lambda>(ident, cref). tag (store cref) = Some t) sec)"

definition logs_as ::
  "scene_class \<Rightarrow> (string \<Rightarrow> pixi \<Rightarrow> journal \<Rightarrow> handle \<times> pixi \<times> journal) \<Rightarrow> bool" where
  "logs_as k factory =
     (\<forall>ident px jn. made (snd (snd (factory ident px jn))) = made jn @ [(k, ident)])"

text \<open>
  The assumption on the collaborators that run after the creation of the visuals
  (filters, transitions, ticker): they leave the Sprite and the Graphic registry as they
  find them.
\<close>

definition frame_step :: "(scope \<Rightarrow> pixi \<Rightarrow> error option \<times> scope \<times> pixi) \<Rightarrow> bool" where
  "frame_step f =
     (\<forall>sc px. lookup_Sprite (fst (snd (f sc px))) = lookup_Sprite sc
            \<and> lookup_Graphic (fst (snd (f sc px))) = lookup_Graphic sc)"

definition keeps_visual_registries :: "externals \<Rightarrow> bool" where
  "keeps_visual_registries ext =
     ((\<forall>inp. frame_step (configureFilters ext inp)) \<and> (\<forall>inp. frame_step (configureTransitions ext inp))
      \<and> frame_step (ticker_update ext))"

text \<open>
  Two results are the same number when they are identical or equal under \<open>===\<close>, which
  leaves open the sign of a zero. \<open>exact_offset p u\<close> says that \<open>u / 2\<close> and \<open>p - u / 2\<close>
  are formed without rounding.
\<close>

definition same_number :: "double \<Rightarrow> double \<Rightarrow> bool" where
  "same_number a b = (a = b \<or> strict_equals a b)"

definition exact_offset :: "double \<Rightarrow> double \<Rightarrow> bool" where
  "exact_offset p u =
     (is_finite (fdiv u (Num 2)) \<and> val (fdiv u (Num 2)) = val u / 2
      \<and> is_finite (fsub p (fdiv u (Num 2))) \<and> val (fsub p (fdiv u (Num 2))) = val p - val u / 2)"

text \<open>
  The assumption on the ticker for the hit test: the update that ends \<open>prepare\<close> leaves
  the order of the container's children and their z-indices as the sort made them.
\<close>

definition keeps_child_order :: "externals \<Rightarrow> bool" where
  "keeps_child_order ext =
     (\<forall>sc px. stage (snd (snd (ticker_update ext sc px))) = stage px
            \<and> zIndex (snd (snd (ticker_update ext sc px))) = zIndex px)"

section \<open>The hit test as the specification words it\<close>

text \<open>
  A point hits a child when it lies within the child's bounds, all four edges included.
  At a level the children are scanned in reverse insertion order and the first child hit
  is the level's only candidate; if that child has descendants the scan goes on among
  them. \<open>levels_visited\<close> lists the candidates from the top level down, and \<open>challenge\<close>
  is the comparison of a candidate with the best one so far (higher z-index wins).
\<close>

definition contains_inclusive :: "Rectangle \<Rightarrow> real \<Rightarrow> real \<Rightarrow> bool" where
  "contains_inclusive b qx qy =
     (x b \<le> qx \<and> qx \<le> x b + width b \<and> y b \<le> qy \<and> qy \<le> y b + height b)"

definition first_hit :: "scene_item list \<Rightarrow> real \<Rightarrow> real \<Rightarrow> scene_item option" where
  "first_hit cs qx qy = find (\<lambda>c. contains_inclusive (bounds_of c) qx qy) (rev cs)"

function levels_visited :: "scene_item \<Rightarrow> real \<Rightarrow> real \<Rightarrow> scene_item list" where
  "levels_visited item qx qy =
     (case first_hit (children item) qx qy of
        None \<Rightarrow> []
      | Some c \<Rightarrow> c # (if children c \<noteq> [] then levels_visited c qx qy else []))"
  by pat_completeness auto
termination
proof (relation "measure (\<lambda>(item, qx, qy). size item)")
  show "wf (measure (\<lambda>(item, qx, qy). size item))"
    by simp
next
  fix item c :: scene_item and qx qy :: real
  assume "first_hit (children item) qx qy = Some c"
  then have "c \<in> set (children item)"
    unfolding first_hit_def by (metis find_Some_iff nth_mem set_rev)
  then have "size c < size item"
    by (cases item) (auto simp: less_Suc_eq_le size_list_estimation')
  then show "((c, qx, qy), (item, qx, qy)) \<in> measure (\<lambda>(item, qx, qy). size item)"
    by simp
qed

declare levels_visited.simps [simp del]

definition challenge :: "scene_item \<Rightarrow> scene_item option \<Rightarrow> scene_item option" where
  "challenge c best =
     (case best of
        None \<Rightarrow> Some c
      | Some t \<Rightarrow> if zIndex_of c > zIndex_of t then Some c else Some t)"

definition chain :: "scene_item list \<Rightarrow> real \<Rightarrow> real \<Rightarrow> scene_item list" where
  "chain cs qx qy =
     (case find (\<lambda>c. holds_point (bounds_of c) qx qy) cs of
        None \<Rightarrow> []
      | Some c \<Rightarrow> c # (if children c \<noteq> [] then levels_visited c qx qy else []))"

section \<open>Example scenes\<close>

text \<open>
  A renderer with no objects but the container (handle 0) and the application's stage
  (handle 1), collaborators that do nothing, loaders that answer one texture per path,
  and the world of a new scope.
\<close>

definition blank_pixi :: pixi where
  "blank_pixi =
     \<lparr>next_handle = 2, kind = (\<lambda>_. PIXI_Container), texture = (\<lambda>_. None),
      filters = (\<lambda>_. None), mask_of = (\<lambda>_. None), stage = [],
      getBounds = (\<lambda>_. \<lparr>width = 0, height = 0, x = 0, y = 0\<rparr>), zIndex = (\<lambda>_. 0),
      descendants = (\<lambda>_. [])\<rparr>"

definition idle_externals :: externals where
  "idle_externals =
     \<lparr>parse_spritesheets = (\<lambda>_ _. Inr []),
      Assets_load = (\<lambda>paths. Inr (zip paths [0..<length paths])),
      setSprite = (\<lambda>_ _ _ px. (None, px)), drawGraphic = (\<lambda>_ _ _ px. (None, px)),
      configureFilters = (\<lambda>_ sc px. (None, sc, px)),
      configureTransitions = (\<lambda>_ sc px. (None, sc, px)),
      ticker_update = (\<lambda>sc px. (None, sc, px)), performance_now = 0\<rparr>"

text \<open>The same collaborators with an asset loader that rejects.\<close>

definition offline_externals :: externals where
  "offline_externals = idle_externals\<lparr>Assets_load := (\<lambda>_. Inl (Failure ''offline''))\<rparr>"

definition fresh_world :: world where
  "fresh_world =
     \<lparr>scope = createScope 0 None None 0, pixi = blank_pixi, childrenByIdentifier = [],
      journal = \<lparr>made = [], destroyed = []\<rparr>\<rparr>"

definition plain_config :: config where
  "plain_config = \<lparr>tag = None, parent = None, mask = None, identifier = None\<rparr>"

text \<open>
  Snapshots with the sprites \<open>a\<close> and \<open>b\<close>, with \<open>a\<close> alone, and with no Sprite section;
  \<open>world_ab\<close> is the world after the first of them has been reconciled.
\<close>

definition snapshot_ab :: input where
  "snapshot_ab = \<lparr>Sprite = Some [(''a'', 1), (''b'', 2)], Filter = Some [], Graphic = Some [],
                   Transition = Some [], Alias = []\<rparr>"

definition snapshot_a :: input where
  "snapshot_a = \<lparr>Sprite = Some [(''a'', 1)], Filter = Some [], Graphic = Some [],
                  Transition = Some [], Alias = []\<rparr>"

definition snapshot_without_sprites :: input where
  "snapshot_without_sprites =
     \<lparr>Sprite = None, Filter = Some [], Graphic = Some [], Transition = Some [], Alias = []\<rparr>"

definition world_ab :: world where
  "world_ab = snd (prepare idle_externals (\<lambda>_. plain_config) snapshot_ab fresh_world)"

text \<open>
  A snapshot whose only sprite declares the parent \<open>P\<close>: once with an alias entry that
  sends \<open>P\<close> to the asset path \<open>Q\<close>, which names no sprite, and once with an empty alias
  table.
\<close>

definition snapshot_orphan :: input where
  "snapshot_orphan =
     \<lparr>Sprite = Some [(''child'', 1)], Filter = Some [], Graphic = Some [], Transition = Some [],
      Alias = [(''P'', ''Q'')]\<rparr>"

definition snapshot_orphan_no_alias :: input where
  "snapshot_orphan_no_alias = snapshot_orphan\<lparr>Alias := []\<rparr>"

definition orphan_store :: config_store where
  "orphan_store = (\<lambda>_. plain_config)(1 := plain_config\<lparr>parent := Some ''P''\<rparr>)"

text \<open>
  A container with a sprite (object 1, z-index 5) and, inserted after it, a container
  (object 2, z-index 1) that holds one small sprite (object 3, z-index 3); and the
  renderer of \<open>world_ab\<close> with the two sprites overlapping, the first inserted (object 2)
  having the higher z-index.
\<close>

definition nested_scene :: scene_item where
  "nested_scene =
     SceneItem 0 PIXI_Container \<lparr>width = 20, height = 20, x = 0, y = 0\<rparr> 0
       [SceneItem 1 PIXI_Sprite \<lparr>width = 10, height = 10, x = 0, y = 0\<rparr> 5 [],
        SceneItem 2 PIXI_Container \<lparr>width = 10, height = 10, x = 0, y = 0\<rparr> 1
          [SceneItem 3 PIXI_Sprite \<lparr>width = 4, height = 4, x = 2, y = 2\<rparr> 3 []]]"

definition overlap_pixi :: pixi where
  "overlap_pixi =
     (pixi world_ab)
       \<lparr>getBounds := (getBounds (pixi world_ab))
            (2 := \<lparr>width = 10, height = 10, x = 0, y = 0\<rparr>,
             3 := \<lparr>width = 10, height = 10, x = 5, y = 5\<rparr>),
        zIndex := (zIndex (pixi world_ab))(2 := 5, 3 := 1)\<rparr>"

text \<open>
  Config stores for the snapshots above: the config of \<open>a\<close> with the empty string as its
  tag; both sprites tagged \<open>t\<close>; only \<open>b\<close> tagged \<open>t\<close>. \<open>world_tagged\<close> is the world after
  the snapshot with both sprites tagged has been reconciled.
\<close>

definition empty_tag_store :: config_store where
  "empty_tag_store = (\<lambda>_. plain_config)(1 := plain_config\<lparr>tag := Some []\<rparr>)"

definition both_tagged_store :: config_store where
  "both_tagged_store =
     (\<lambda>_. plain_config)(1 := plain_config\<lparr>tag := Some ''t''\<rparr>, 2 := plain_config\<lparr>tag := Some ''t''\<rparr>)"

definition b_tagged_store :: config_store where
  "b_tagged_store = (\<lambda>_. plain_config)(2 := plain_config\<lparr>tag := Some ''t''\<rparr>)"

definition world_tagged :: world where
  "world_tagged = snd (prepare idle_externals both_tagged_store snapshot_ab fresh_world)"

text \<open>
  Collaborators whose sprite setter places object 2 and object 3 as in \<open>overlap_pixi\<close>,
  and the world after the snapshot with both sprites has been reconciled with them.
\<close>

definition placing_externals :: externals where
  "placing_externals =
     idle_externals
       \<lparr>setSprite := (\<lambda>item sc config px.
          (None,
           px\<lparr>getBounds := (getBounds px)
                  (item := if item = 2 then \<lparr>width = 10, height = 10, x = 0, y = 0\<rparr>
                           else \<lparr>width = 10, height = 10, x = 5, y = 5\<rparr>),
              zIndex := (zIndex px)(item := if item = 2 then 5 else 1)\<rparr>))\<rparr>"

definition world_overlap :: world where
  "world_overlap = snd (prepare placing_externals (\<lambda>_. plain_config) snapshot_ab fresh_world)"

text \<open>
  A snapshot with three sprites, collaborators whose sprite setter gives every sprite the
  same bounds and the z-indices 1, 5 and 9 to the objects 2, 3 and 4, and the world after
  the snapshot has been reconciled with them.
\<close>

definition snapshot_abc :: input where
  "snapshot_abc =
     \<lparr>Sprite = Some [(''a'', 1), (''b'', 2), (''c'', 3)], Filter = Some [], Graphic = Some [],
      Transition = Some [], Alias = []\<rparr>"

definition stacking_externals :: externals where
  "stacking_externals =
     idle_externals
       \<lparr>setSprite := (\<lambda>item sc config px.
          (None,
           px\<lparr>getBounds := (getBounds px)(item := \<lparr>width = 10, height = 10, x = 0, y = 0\<rparr>),
              zIndex := (zIndex px)(item := if item = 2 then 1 else if item = 3 then 5 else 9)\<rparr>))\<rparr>"

definition world_stacked :: world where
  "world_stacked = snd (prepare stacking_externals (\<lambda>_. plain_config) snapshot_abc fresh_world)"

section \<open>Theorems\<close>

subsection \<open>Rounding\<close>

text \<open>
  The exponent function finds the binade of a magnitude; a rational with at most 53
  significant bits, an exponent of at least \<open>- 1074\<close> and a magnitude below \<open>2 powi 1024\<close>
  is a double, and what rounding returns is one.
\<close>

lemma pow2_pos: "0 < (2 :: rat) powi k"
  by (simp add: power_int_def)

lemma pow2_Suc: "(2 :: rat) powi (k + 1) = 2 * 2 powi k"
  by (simp add: power_int_add)

lemma pow2_pred: "(2 :: rat) powi (k - 1) = 2 powi k / 2"
  by (simp add: power_int_diff)

lemma pow2_mono: "a \<le> b \<Longrightarrow> (2 :: rat) powi a \<le> 2 powi b"
  by (rule power_int_increasing) simp_all

lemma pow2_strict_mono: "a < b \<Longrightarrow> (2 :: rat) powi a < 2 powi b"
  by (rule power_int_strict_increasing) simp_all

lemma exponent_bounds:
  "0 < m \<Longrightarrow> 2 powi exponent m \<le> m \<and> m < 2 powi (exponent m + 1)"
proof (induction m rule: exponent.induct)
  case (1 m)
  consider (big) "2 \<le> m" | (small) "m < 1" | (unit) "1 \<le> m" "m < 2"
    by linarith
  then show ?case
  proof cases
    case big
    then have e: "exponent m = exponent (m / 2) + 1"
      by (subst exponent.simps) simp
    have "2 powi exponent (m / 2) \<le> m / 2 \<and> m / 2 < 2 powi (exponent (m / 2) + 1)"
      using 1(1) big by simp
    then show ?thesis
      unfolding e pow2_Suc by (simp add: field_simps)
  next
    case small
    then have e: "exponent m = exponent (m * 2) - 1"
      using 1(3) by (subst exponent.simps) simp
    have "2 powi exponent (m * 2) \<le> m * 2 \<and> m * 2 < 2 powi (exponent (m * 2) + 1)"
      using 1(2) 1(3) small by simp
    then have "2 powi exponent (m * 2) / 2 \<le> m \<and> m < 2 powi exponent (m * 2)"
      unfolding pow2_Suc by linarith
    then show ?thesis
      unfolding e pow2_pred by simp
  next
    case unit
    then have "exponent m = 0"
      by (subst exponent.simps) simp
    then show ?thesis using unit by simp
  qed
qed

lemma exponent_unique:
  assumes "0 < m" and "2 powi e \<le> m" and "m < 2 powi (e + 1)"
  shows "exponent m = e"
proof (rule antisym)
  note b = exponent_bounds [OF assms(1)]
  show "exponent m \<le> e"
  proof (rule ccontr)
    assume "\<not> exponent m \<le> e"
    then have "e + 1 \<le> exponent m" by simp
    then have "(2 :: rat) powi (e + 1) \<le> 2 powi exponent m" by (rule pow2_mono)
    then show False using b assms(3) by linarith
  qed
  show "e \<le> exponent m"
  proof (rule ccontr)
    assume "\<not> e \<le> exponent m"
    then have "exponent m + 1 \<le> e" by simp
    then have "(2 :: rat) powi (exponent m + 1) \<le> 2 powi e" by (rule pow2_mono)
    then show False using b assms(2) by linarith
  qed
qed

lemma exponent_less:
  assumes "0 < m" and "m < 2 powi j"
  shows "exponent m < j"
proof (rule ccontr)
  assume "\<not> exponent m < j"
  then have "(2 :: rat) powi j \<le> 2 powi exponent m" by (intro pow2_mono) simp
  then show False using exponent_bounds [OF assms(1)] assms(2) by linarith
qed

lemma round_half_even_int: "round_half_even (of_int n) = n"
  by (simp add: round_half_even_def)


lemma round_half_even_le: "t \<le> of_int b \<Longrightarrow> round_half_even t \<le> b"
proof -
  assume t: "t \<le> of_int b"
  have n: "\<lfloor>t\<rfloor> \<le> b" using t by (simp add: floor_le_iff)
  show ?thesis
  proof (cases "t - of_int \<lfloor>t\<rfloor> < 1 / 2")
    case True
    then show ?thesis using n by (simp add: round_half_even_def)
  next
    case False
    then have "of_int \<lfloor>t\<rfloor> < (of_int b :: rat)" using t by linarith
    then have "\<lfloor>t\<rfloor> + 1 \<le> b" by simp
    moreover have "round_half_even t \<le> \<lfloor>t\<rfloor> + 1"
      by (simp add: round_half_even_def Let_def)
    ultimately show ?thesis by linarith
  qed
qed

lemma round_half_even_nonneg: "0 \<le> t \<Longrightarrow> 0 \<le> round_half_even t"
  by (simp add: round_half_even_def Let_def)

text \<open>The rounded magnitude of a non-zero rational: a multiple of the quantum.\<close>

lemma rounded_magnitude:
  assumes "0 < m"
  obtains n t where "quantum m = 2 powi t" "- 1074 \<le> t" "round_half_even (m / 2 powi t) = n"
    "0 \<le> n" "n \<le> 2 ^ 53"
proof -
  define t where "t = max (exponent m) (- 1022) - 52"
  have q: "quantum m = 2 powi t" by (simp add: quantum_def t_def)
  have "m < 2 powi (exponent m + 1)" using exponent_bounds [OF assms] by simp
  also have "\<dots> \<le> 2 powi (53 + t)" by (rule pow2_mono) (simp add: t_def)
  also have "\<dots> = 2 powi 53 * 2 powi t" by (rule power_int_add) simp
  finally have "m / 2 powi t < 2 ^ 53"
    using pow2_pos [of t] by (simp add: field_simps)
  then have "m / quantum m \<le> of_int (2 ^ 53)" by (simp add: q)
  then have 1: "round_half_even (m / quantum m) \<le> 2 ^ 53"
    by (rule round_half_even_le)
  have "0 \<le> m / quantum m" using assms pow2_pos [of t] by (simp add: q)
  then have 2: "0 \<le> round_half_even (m / quantum m)" by (rule round_half_even_nonneg)
  show thesis
    by (rule that [OF q _ refl 2 [unfolded q] 1 [unfolded q]]) (simp add: t_def)
qed

lemma rnd_dyadic:
  assumes n: "n \<noteq> 0" "\<bar>n\<bar> < 2 ^ 53" and k: "- 1074 \<le> k"
    and b: "\<bar>of_int n * 2 powi k\<bar> < (2 :: rat) powi 1024"
  shows "rnd (of_int n * 2 powi k) = Num (of_int n * 2 powi k)"
proof -
  define r :: rat where "r = of_int n * 2 powi k"
  define m where "m = \<bar>r\<bar>"
  have m: "m = of_int \<bar>n\<bar> * 2 powi k"
    using pow2_pos [of k] by (simp add: m_def r_def abs_mult)
  have pos: "0 < m" using n(1) pow2_pos [of k] by (simp add: m)
  define t where "t = max (exponent m) (- 1022) - 52"
  have q: "quantum m = 2 powi t" by (simp add: quantum_def t_def)
  have "(of_int \<bar>n\<bar> :: rat) < of_int (2 ^ 53)" using n(2) by (simp only: of_int_less_iff)
  then have "m < 2 powi 53 * 2 powi k"
    unfolding m using pow2_pos [of k] by simp
  also have "\<dots> = 2 powi (53 + k)" by (rule power_int_add [symmetric]) simp
  finally have "exponent m < 53 + k" by (rule exponent_less [OF pos])
  then have t: "t \<le> k" using k by (simp add: t_def)
  define j where "j = nat (k - t)"
  have "(2 :: rat) powi k = 2 powi (t + int j)" using t by (simp add: j_def)
  also have "\<dots> = 2 powi t * 2 powi int j" by (rule power_int_add) simp
  finally have split: "(2 :: rat) powi k = 2 powi t * 2 ^ j" by simp
  have mm: "m = of_int (\<bar>n\<bar> * 2 ^ j) * 2 powi t"
    using m split by simp
  have "m / 2 powi t = of_int (\<bar>n\<bar> * 2 ^ j)"
    using pow2_pos [of t] by (subst mm) simp
  then have rn: "round_half_even (m / 2 powi t) = \<bar>n\<bar> * 2 ^ j"
    by (simp only: round_half_even_int)
  have restored: "of_int (round_half_even (m / quantum m)) * quantum m = m"
    unfolding q rn by (rule mm [symmetric])
  have "exponent m < 1024" using b unfolding r_def [symmetric] m_def [symmetric]
    by (rule exponent_less [OF pos])
  then have "rnd r = Num r"
    unfolding rnd_def Let_def m_def [symmetric] restored using pos
    by (auto simp: m_def abs_if split: if_splits)
  then show ?thesis by (simp add: r_def)
qed

lemma exponent_zero: "exponent 0 = 0"
  by (subst exponent.simps) simp

lemma rnd_zero: "rnd 0 = Num 0"
  by (simp add: rnd_def Let_def round_half_even_def signed_zero_def exponent_zero)

lemma rnd_idem:
  assumes "rnd r = Num q"
  shows "rnd q = Num q"
proof (cases "q = 0")
  case True
  then show ?thesis by (simp add: rnd_zero)
next
  case False
  then have r0: "r \<noteq> 0" using assms by (auto simp: rnd_zero)
  then have pos: "0 < \<bar>r\<bar>" by simp
  from rounded_magnitude [OF pos] obtain n t where
    q: "quantum \<bar>r\<bar> = 2 powi t" and t: "- 1074 \<le> t"
    and n: "round_half_even (\<bar>r\<bar> / 2 powi t) = n" "0 \<le> n" "n \<le> 2 ^ 53"
    by blast
  define m :: rat where "m = of_int n * 2 powi t"
  have form: "rnd r = (if 1024 \<le> exponent m then Infinity (r < 0)
                       else if m = 0 then signed_zero (r < 0)
                       else Num (if r < 0 then - m else m))"
    by (simp only: rnd_def Let_def q n m_def)
  have big: "\<not> 1024 \<le> exponent m"
    using assms unfolding form by (auto split: if_splits)
  have m0: "m \<noteq> 0"
    using assms False big unfolding form by (auto simp: signed_zero_def split: if_splits)
  have qm: "q = (if r < 0 then - m else m)"
    using assms big m0 unfolding form by simp
  have n0: "n \<noteq> 0" using m0 by (auto simp: m_def)
  have mpos: "0 < m" using n0 n(2) pow2_pos [of t] by (simp add: m_def)
  have bound: "\<bar>m\<bar> < 2 powi 1024"
  proof -
    have "m < 2 powi (exponent m + 1)" using exponent_bounds [OF mpos] by simp
    also have "\<dots> \<le> 2 powi 1024" using big by (intro pow2_mono) simp
    finally show ?thesis using mpos by simp
  qed
  have "rnd m = Num m \<and> rnd (- m) = Num (- m)"
  proof (cases "n = 2 ^ 53")
    case True
    have e: "m = of_int (2 ^ 52) * 2 powi (t + 1)"
      unfolding m_def True by (simp add: pow2_Suc)
    have e': "- m = of_int (- (2 ^ 52)) * 2 powi (t + 1)"
      unfolding e by simp
    have "rnd (of_int (2 ^ 52) * 2 powi (t + 1)) = Num (of_int (2 ^ 52) * 2 powi (t + 1))"
      using t bound unfolding e by (intro rnd_dyadic) simp_all
    moreover have "rnd (of_int (- (2 ^ 52)) * 2 powi (t + 1)) = Num (of_int (- (2 ^ 52)) * 2 powi (t + 1))"
      using t bound unfolding e by (intro rnd_dyadic) simp_all
    ultimately show ?thesis unfolding e' unfolding e by simp
  next
    case False
    then have lt: "\<bar>n\<bar> < 2 ^ 53" "\<bar>- n\<bar> < 2 ^ 53" using n by simp_all
    have e': "- m = of_int (- n) * 2 powi t" by (simp add: m_def)
    have b': "\<bar>of_int (- n) * 2 powi t\<bar> < (2 :: rat) powi 1024"
      using bound unfolding m_def by simp
    have "rnd (of_int n * 2 powi t) = Num (of_int n * 2 powi t)"
      using n0 lt(1) t bound [unfolded m_def] by (rule rnd_dyadic)
    moreover have "rnd (of_int (- n) * 2 powi t) = Num (of_int (- n) * 2 powi t)"
      using _ lt(2) t b' by (rule rnd_dyadic) (simp add: n0)
    ultimately show ?thesis unfolding e' by (simp add: m_def)
  qed
  then show ?thesis using qm by simp
qed

lemma is_double_rnd: "is_double (rnd r)"
  by (cases "rnd r") (simp_all add: is_double_def rnd_idem)

lemma is_double_zero: "is_double (signed_zero s)"
  by (simp add: is_double_def signed_zero_def rnd_zero)

text \<open>Rounding evaluated at a given binade, and the small integers.\<close>

lemma round_half_even_near:
  assumes "\<bar>t - of_int n\<bar> < 1 / 2"
  shows "round_half_even t = n"
proof -
  have a: "t - of_int n < 1 / 2" "- (t - of_int n) < 1 / 2"
    using assms unfolding abs_less_iff by blast+
  have "of_int (n - 1) \<le> t" "t < of_int (n + 1)"
    using a by simp_all
  then have "n - 1 \<le> \<lfloor>t\<rfloor>" "\<lfloor>t\<rfloor> < n + 1"
    by (simp_all only: le_floor_iff floor_less_iff)
  then have "\<lfloor>t\<rfloor> = n \<or> \<lfloor>t\<rfloor> = n - 1"
    by linarith
  then show ?thesis
  proof
    assume f: "\<lfloor>t\<rfloor> = n"
    then have "t - of_int \<lfloor>t\<rfloor> < 1 / 2" using a(1) by simp
    then show ?thesis using f by (simp add: round_half_even_def)
  next
    assume f: "\<lfloor>t\<rfloor> = n - 1"
    have "of_int (n - 1) = (of_int n :: rat) - 1" by simp
    then have "\<not> t - of_int \<lfloor>t\<rfloor> < 1 / 2" "t - of_int \<lfloor>t\<rfloor> \<noteq> 1 / 2"
      unfolding f using a(2) by linarith+
    then show ?thesis using f by (simp add: round_half_even_def Let_def)
  qed
qed

lemma rnd_nearest:
  assumes r: "r \<noteq> 0" and lo: "2 powi e \<le> \<bar>r\<bar>" and hi: "\<bar>r\<bar> < 2 powi (e + 1)"
    and e: "- 1022 \<le> e" "e < 1023"
    and n: "\<bar>\<bar>r\<bar> / 2 powi (e - 52) - of_int n\<bar> < 1 / 2"
  shows "rnd r = Num (if r < 0 then - (of_int n * 2 powi (e - 52)) else of_int n * 2 powi (e - 52))"
proof -
  define m where "m = \<bar>r\<bar>"
  define t where "t = e - 52"
  have pos: "0 < m" using r by (simp add: m_def)
  have ex: "exponent m = e" using pos lo hi unfolding m_def [symmetric] by (rule exponent_unique)
  have q: "quantum m = 2 powi t" using e by (simp add: quantum_def ex t_def)
  have rn: "round_half_even (m / 2 powi t) = n"
    using n unfolding m_def [symmetric] t_def [symmetric] by (rule round_half_even_near)
  define m' :: rat where "m' = of_int n * 2 powi t"
  have "e = 52 + t" by (simp add: t_def)
  then have "(2 :: rat) powi e = 2 powi (52 + t)" by (rule arg_cong)
  also have "\<dots> = 2 powi 52 * 2 powi t" by (rule power_int_add) simp
  finally have e52: "(2 :: rat) powi e = 2 ^ 52 * 2 powi t" by simp
  have "e + 1 = 53 + t" by (simp add: t_def)
  then have "(2 :: rat) powi (e + 1) = 2 powi (53 + t)" by (rule arg_cong)
  also have "\<dots> = 2 powi 53 * 2 powi t" by (rule power_int_add) simp
  finally have e53: "(2 :: rat) powi (e + 1) = 2 ^ 53 * 2 powi t" by simp
  have x: "2 ^ 52 \<le> m / 2 powi t" "m / 2 powi t < 2 ^ 53"
    using lo hi pow2_pos [of t] unfolding m_def [symmetric] e52 e53
    by (simp_all add: field_simps)
  have "(2 ^ 52 :: rat) - 1 / 2 < of_int n" "(of_int n :: rat) < 2 ^ 53 + 1 / 2"
    using x n unfolding m_def [symmetric] t_def [symmetric] by linarith+
  then have "(of_int (2 ^ 52 - 1) :: rat) < of_int n" "(of_int n :: rat) < of_int (2 ^ 53 + 1)"
    by simp_all
  then have nb: "2 ^ 52 \<le> n" "n \<le> 2 ^ 53"
    unfolding of_int_less_iff by simp_all
  then have m'pos: "0 < m'" using pow2_pos [of t] by (simp add: m'_def)
  have "(of_int n :: rat) \<le> of_int (2 ^ 53)" using nb(2) by (simp only: of_int_le_iff)
  then have "m' \<le> 2 ^ 53 * 2 powi t"
    unfolding m'_def using pow2_pos [of t] by simp
  also have "\<dots> = 2 powi (e + 1)" by (rule e53 [symmetric])
  also have "\<dots> < 2 powi 1024" using e by (intro pow2_strict_mono) simp
  finally have "exponent m' < 1024" by (rule exponent_less [OF m'pos])
  then have "rnd r = Num (if r < 0 then - m' else m')"
    unfolding rnd_def Let_def m_def [symmetric] q rn m'_def [symmetric] using m'pos by simp
  then show ?thesis by (simp add: m'_def t_def)
qed

lemma rnd_int:
  assumes "\<bar>n\<bar> < 2 ^ 53"
  shows "rnd (of_int n) = Num (of_int n)"
proof (cases "n = 0")
  case True
  then show ?thesis by (simp add: rnd_zero)
next
  case False
  have "\<bar>of_int n :: rat\<bar> = of_int \<bar>n\<bar>" by simp
  also have "\<dots> < of_int (2 ^ 53)" using assms by (simp only: of_int_less_iff)
  also have "\<dots> = 2 powi 53" by simp
  also have "\<dots> < 2 powi 1024" by (rule pow2_strict_mono) simp
  finally have "\<bar>of_int n * 2 powi 0\<bar> < (2 :: rat) powi 1024" by simp
  with rnd_dyadic [OF False assms, of 0] show ?thesis by simp
qed

lemma rnd_numeral: "numeral w < (2 :: int) ^ 53 \<Longrightarrow> rnd (numeral w) = Num (numeral w)"
  using rnd_int [of "numeral w"] by simp

lemma rnd_neg_numeral: "numeral w < (2 :: int) ^ 53 \<Longrightarrow> rnd (- numeral w) = Num (- numeral w)"
  using rnd_int [of "- numeral w"] by simp

text \<open>
  The centred position: the terms of the self size and of the value are zeros, and adding
  a zero to a double changes at most the sign of a zero.
\<close>

lemma fmul_half: "is_finite u \<Longrightarrow> fmul (Num (1 / 2)) u = fdiv u (Num 2)"
  by (cases u) (simp_all add: fmul_def fdiv_def)

lemma same_number_trans: "same_number a b \<Longrightarrow> same_number b c \<Longrightarrow> same_number a c"
  by (auto simp: same_number_def strict_equals_def)

lemma fadd_zero:
  assumes "is_double a" and "is_finite z" and "val z = 0"
  shows "same_number (fadd a z) a"
proof (cases a)
  case (Num q)
  then show ?thesis
    using assms by (cases z) (auto simp: fadd_def same_number_def strict_equals_def signed_zero_def is_double_def)
next
  case NegZero
  then show ?thesis
    using assms by (cases z) (auto simp: fadd_def same_number_def strict_equals_def signed_zero_def)
next
  case (Infinity s)
  then show ?thesis
    using assms by (cases z) (auto simp: fadd_def same_number_def)
next
  case NaN
  then show ?thesis by (simp add: fadd_def same_number_def)
qed

lemma is_double_special: "is_double NegZero" "is_double (Infinity s)" "is_double NaN"
  by (simp_all add: is_double_def)

lemma is_double_fadd_any: "is_double (fadd a b)"
  by (cases a; cases b) (simp_all add: fadd_def is_double_rnd is_double_zero is_double_special)

lemma same_strict: "same_number a b \<Longrightarrow> strict_equals b c \<Longrightarrow> strict_equals a c"
  by (auto simp: same_number_def strict_equals_def)

lemma half_minus_half: "fsub (Num (1 / 2)) (Num (1 / 2)) = Num 0"
  by (simp add: fsub_def fneg_def fadd_def signed_zero_def)

lemma fmul_zero_left: "is_finite s \<Longrightarrow> is_finite (fmul (Num 0) s) \<and> val (fmul (Num 0) s) = 0"
  by (cases s) (simp_all add: fmul_def signed_zero_def)

lemma fmul_zero_right:
  "is_finite u \<Longrightarrow> is_finite z \<Longrightarrow> val z = 0 \<Longrightarrow> is_finite (fmul u z) \<and> val (fmul u z) = 0"
  by (cases u; cases z) (simp_all add: fmul_def signed_zero_def)

lemma fmul_zero_not_finite:
  "\<not> is_finite u \<Longrightarrow> is_finite z \<Longrightarrow> val z = 0 \<Longrightarrow> fmul u z = NaN"
  by (cases u; cases z) (simp_all add: fmul_def)

lemma fadd_NaN_right: "fadd a NaN = NaN"
  by (simp add: fadd_def)

lemma fadd_NaN_left: "fadd NaN a = NaN"
  by (simp add: fadd_def)

lemma fmul_zero_of_not_finite: "\<not> is_finite s \<Longrightarrow> fmul (Num 0) s = NaN"
  by (cases s) (simp_all add: fmul_def)

lemma centred_not_finite:
  "\<not> is_finite (unit_of slf d) \<Longrightarrow>
     resolvePosition \<lparr>value = z, anchors = \<lparr>self = Num (1 / 2), parent = Num (1 / 2)\<rparr>\<rparr> d slf p = NaN"
  by (simp add: resolvePosition_def half_minus_half fmul_zero_of_not_finite fadd_NaN_right fadd_NaN_left)

lemma offset_not_finite:
  "\<not> is_finite u \<Longrightarrow> fadd (fsub p (fdiv u (Num 2))) (fmul (Num (1 / 2)) u) = NaN"
  by (cases u; cases p) (auto simp: fadd_def fsub_def fdiv_def fmul_def fneg_def)

lemma centred_reduction:
  assumes s: "is_finite (unit_of slf d)" and z: "is_finite z" "val z = 0"
  shows "same_number
           (resolvePosition \<lparr>value = z, anchors = \<lparr>self = Num (1 / 2), parent = Num (1 / 2)\<rparr>\<rparr> d slf p)
           (fadd (fsub (parent_at p d) (fdiv (unit_of p d) (Num 2))) (fmul (Num (1 / 2)) (unit_of p d)))"
proof -
  define u where "u = unit_of p d"
  define t where "t = fadd (fsub (parent_at p d) (fdiv u (Num 2))) (fmul (Num (1 / 2)) u)"
  define z1 where "z1 = fmul (Num 0) (unit_of slf d)"
  define z2 where "z2 = fmul u z"
  have r: "resolvePosition \<lparr>value = z, anchors = \<lparr>self = Num (1 / 2), parent = Num (1 / 2)\<rparr>\<rparr> d slf p
             = fadd (fadd t z1) z2"
    by (simp add: resolvePosition_def half_minus_half t_def z1_def z2_def u_def)
  have z1: "is_finite z1" "val z1 = 0"
    using fmul_zero_left [OF s] by (simp_all add: z1_def)
  have "same_number (fadd (fadd t z1) z2) t"
  proof (cases "is_finite u")
    case True
    have z2: "is_finite z2" "val z2 = 0"
      using fmul_zero_right [OF True z] by (simp_all add: z2_def)
    have "is_double t" unfolding t_def by (rule is_double_fadd_any)
    then have 1: "same_number (fadd t z1) t" using z1 by (rule fadd_zero)
    have "is_double (fadd t z1)" by (rule is_double_fadd_any)
    then have "same_number (fadd (fadd t z1) z2) (fadd t z1)" using z2 by (rule fadd_zero)
    then show ?thesis using 1 by (rule same_number_trans)
  next
    case False
    then have "z2 = NaN" unfolding z2_def using z by (rule fmul_zero_not_finite)
    moreover have "t = NaN" unfolding t_def using False by (rule offset_not_finite)
    ultimately show ?thesis by (simp add: fadd_NaN_right same_number_def)
  qed
  then show ?thesis unfolding r by (simp add: t_def u_def)
qed

lemma fdiv_two_finite: "is_finite (fdiv u (Num 2)) \<Longrightarrow> is_finite u"
  by (cases u) (simp_all add: fdiv_def)

lemma centred_offset_exact:
  assumes p: "is_finite p" "is_double p" and e: "exact_offset p u"
  shows "strict_equals (fadd (fsub p (fdiv u (Num 2))) (fmul (Num (1 / 2)) u)) p"
proof -
  define h where "h = fdiv u (Num 2)"
  define off where "off = fsub p h"
  have h: "is_finite h" "val h = val u / 2" and off: "is_finite off" "val off = val p - val u / 2"
    using e by (simp_all add: exact_offset_def h_def off_def)
  have "is_finite u" using h(1) unfolding h_def by (rule fdiv_two_finite)
  then have m: "fmul (Num (1 / 2)) u = h" unfolding h_def by (rule fmul_half)
  have sum: "val off + val h = val p" using off h by simp
  have "strict_equals (fadd off h) p"
  proof (cases p)
    case (Num q)
    then have "rnd q = Num q" using p(2) by (simp add: is_double_def)
    then show ?thesis
      using off(1) h(1) sum Num
      by (cases off; cases h) (auto simp: fadd_def strict_equals_def signed_zero_def)
  next
    case NegZero
    then show ?thesis
      using off(1) h(1) sum
      by (cases off; cases h) (auto simp: fadd_def strict_equals_def signed_zero_def)
  next
    case (Infinity s)
    then show ?thesis using p(1) by simp
  next
    case NaN
    then show ?thesis using p(1) by simp
  qed
  then show ?thesis by (simp add: m off_def h_def)
qed

text \<open>The roundings met when the frame \<open>{x: 0.1, width: 1920}\<close> is resolved.\<close>

lemma rnd_tenth: "rnd (1 / 10) = Num (3602879701896397 / 36028797018963968)"
  using rnd_nearest [where r = "1 / 10" and e = "- 4" and n = 7205759403792794]
  by (simp add: power_int_minus)

lemma rnd_offset:
  "rnd (- (34584042258503512883 / 36028797018963968)) = Num (- (8443369692017459 / 8796093022208))"
  using rnd_nearest [where r = "- (34584042258503512883 / 36028797018963968)" and e = 9
                       and n = 8443369692017459]
  by (simp add: power_int_minus)

lemma rnd_back:
  "rnd (879609302221 / 8796093022208) = Num (879609302221 / 8796093022208)"
  using rnd_dyadic [where n = 879609302221 and k = "- 43"]
  by (simp add: power_int_minus)

text \<open>
  C4, as stated, does not hold of the centred position: the operators round. For the
  frame \<open>{x: 0.1, width: 1920}\<close> with value 0 and both anchors one half the result is
  \<open>0.10000000000002274\<close> and not the double \<open>0.1\<close> of the parent's centre: the
  difference \<open>0.1 - 960\<close> is rounded before \<open>960\<close> is added back. And the result is not
  the centre for every self size: for the self width \<open>Infinity\<close> the product
  \<open>(0.5 - 0.5) * Infinity\<close> and with it the result is NaN.
\<close>

theorem centred_position_counterexample:
  "resolvePosition \<lparr>value = Num 0, anchors = \<lparr>self = Num (1 / 2), parent = Num (1 / 2)\<rparr>\<rparr> X
       \<lparr>width = Num 0, height = Num 0\<rparr>
       \<lparr>width = Num 1920, height = Num 1080, x = rnd (1 / 10), y = Num 540\<rparr>
     = Num (879609302221 / 8796093022208)
   \<and> parent_at \<lparr>width = Num 1920, height = Num 1080, x = rnd (1 / 10), y = Num 540\<rparr> X
     = Num (3602879701896397 / 36028797018963968)
   \<and> \<not> strict_equals
         (resolvePosition \<lparr>value = Num 0, anchors = \<lparr>self = Num (1 / 2), parent = Num (1 / 2)\<rparr>\<rparr> X
            \<lparr>width = Num 0, height = Num 0\<rparr>
            \<lparr>width = Num 1920, height = Num 1080, x = rnd (1 / 10), y = Num 540\<rparr>)
         (parent_at \<lparr>width = Num 1920, height = Num 1080, x = rnd (1 / 10), y = Num 540\<rparr> X)
   \<and> resolvePosition \<lparr>value = Num 0, anchors = \<lparr>self = Num (1 / 2), parent = Num (1 / 2)\<rparr>\<rparr> X
       \<lparr>width = Infinity False, height = Num 0\<rparr>
       \<lparr>width = Num 200, height = Num 200, x = Num 100, y = Num 100\<rparr>
     = NaN"
proof -
  have 1: "resolvePosition \<lparr>value = Num 0, anchors = \<lparr>self = Num (1 / 2), parent = Num (1 / 2)\<rparr>\<rparr> X
       \<lparr>width = Num 0, height = Num 0\<rparr>
       \<lparr>width = Num 1920, height = Num 1080, x = rnd (1 / 10), y = Num 540\<rparr>
     = Num (879609302221 / 8796093022208)"
    by (simp add: resolvePosition_def parent_at_def unit_of_def fadd_def fsub_def fmul_def fdiv_def
        fneg_def signed_zero_def rnd_numeral rnd_tenth rnd_offset rnd_back)
  have 2: "parent_at \<lparr>width = Num 1920, height = Num 1080, x = rnd (1 / 10), y = Num 540\<rparr> X
     = Num (3602879701896397 / 36028797018963968)"
    by (simp add: parent_at_def rnd_tenth)
  have 3: "resolvePosition \<lparr>value = Num 0, anchors = \<lparr>self = Num (1 / 2), parent = Num (1 / 2)\<rparr>\<rparr> X
       \<lparr>width = Infinity False, height = Num 0\<rparr>
       \<lparr>width = Num 200, height = Num 200, x = Num 100, y = Num 100\<rparr>
     = NaN"
    by (simp add: resolvePosition_def parent_at_def unit_of_def fadd_def fsub_def fmul_def fdiv_def
        fneg_def signed_zero_def rnd_numeral)
  show ?thesis
    unfolding 1 2 3 by (simp add: strict_equals_def)
qed

text \<open>
  C4, amended. The resolver returns
  \<open>parentFrame[axis] - unit/2 + anchors.parent * unit + (0.5 - anchors.self) * selfSize + unit * value\<close>
  evaluated from left to right in double arithmetic, with \<open>unit\<close> the parent's width on
  the x axis and its height on the y axis. The frame \<open>{x: 100, width: 200}\<close> with value
  one quarter, both anchors one half and self width 0 gives exactly 150. With value zero
  and both anchors one half, every finite self size gives the same number as
  \<open>(parentFrame[axis] - unit/2) + 0.5 * unit\<close> in double arithmetic; this is the parent's
  centre whenever \<open>unit/2\<close> and the difference \<open>parentFrame[axis] - unit/2\<close> are formed
  without rounding. For a self size that is infinite or NaN the result is NaN. Every
  result is a double.
\<close>

theorem resolvePosition_in_double_arithmetic:
  "resolvePosition \<lparr>value = v, anchors = \<lparr>self = a, parent = b\<rparr>\<rparr> X
       \<lparr>width = sw, height = sh\<rparr> \<lparr>width = pw, height = ph, x = px, y = py\<rparr>
     = fadd (fadd (fadd (fsub px (fdiv pw (Num 2))) (fmul b pw))
                  (fmul (fsub (Num (1 / 2)) a) sw))
            (fmul pw v)
   \<and> resolvePosition \<lparr>value = v, anchors = \<lparr>self = a, parent = b\<rparr>\<rparr> Y
       \<lparr>width = sw, height = sh\<rparr> \<lparr>width = pw, height = ph, x = px, y = py\<rparr>
     = fadd (fadd (fadd (fsub py (fdiv ph (Num 2))) (fmul b ph))
                  (fmul (fsub (Num (1 / 2)) a) sh))
            (fmul ph v)
   \<and> resolvePosition \<lparr>value = Num (1 / 4), anchors = \<lparr>self = Num (1 / 2), parent = Num (1 / 2)\<rparr>\<rparr> X
       \<lparr>width = Num 0, height = sh\<rparr> \<lparr>width = Num 200, height = ph, x = Num 100, y = py\<rparr>
     = Num 150
   \<and> (is_finite (unit_of slf d) \<and> is_finite z \<and> val z = 0 \<longrightarrow>
        same_number
          (resolvePosition \<lparr>value = z, anchors = \<lparr>self = Num (1 / 2), parent = Num (1 / 2)\<rparr>\<rparr> d slf p)
          (fadd (fsub (parent_at p d) (fdiv (unit_of p d) (Num 2))) (fmul (Num (1 / 2)) (unit_of p d))))
   \<and> (is_finite (unit_of slf d) \<and> is_finite z \<and> val z = 0
        \<and> is_finite (parent_at p d) \<and> is_double (parent_at p d)
        \<and> exact_offset (parent_at p d) (unit_of p d) \<longrightarrow>
        strict_equals
          (resolvePosition \<lparr>value = z, anchors = \<lparr>self = Num (1 / 2), parent = Num (1 / 2)\<rparr>\<rparr> d slf p)
          (parent_at p d))
   \<and> (\<not> is_finite (unit_of slf d) \<longrightarrow>
        resolvePosition \<lparr>value = z, anchors = \<lparr>self = Num (1 / 2), parent = Num (1 / 2)\<rparr>\<rparr> d slf p = NaN)
   \<and> is_double (resolvePosition pos d slf p)"
proof (intro conjI impI)
  show "resolvePosition \<lparr>value = v, anchors = \<lparr>self = a, parent = b\<rparr>\<rparr> X
       \<lparr>width = sw, height = sh\<rparr> \<lparr>width = pw, height = ph, x = px, y = py\<rparr>
     = fadd (fadd (fadd (fsub px (fdiv pw (Num 2))) (fmul b pw))
                  (fmul (fsub (Num (1 / 2)) a) sw))
            (fmul pw v)"
    by (simp add: resolvePosition_def parent_at_def unit_of_def)
  show "resolvePosition \<lparr>value = v, anchors = \<lparr>self = a, parent = b\<rparr>\<rparr> Y
       \<lparr>width = sw, height = sh\<rparr> \<lparr>width = pw, height = ph, x = px, y = py\<rparr>
     = fadd (fadd (fadd (fsub py (fdiv ph (Num 2))) (fmul b ph))
                  (fmul (fsub (Num (1 / 2)) a) sh))
            (fmul ph v)"
    by (simp add: resolvePosition_def parent_at_def unit_of_def)
  show "resolvePosition \<lparr>value = Num (1 / 4), anchors = \<lparr>self = Num (1 / 2), parent = Num (1 / 2)\<rparr>\<rparr> X
       \<lparr>width = Num 0, height = sh\<rparr> \<lparr>width = Num 200, height = ph, x = Num 100, y = py\<rparr>
     = Num 150"
    by (simp add: resolvePosition_def parent_at_def unit_of_def fadd_def fsub_def fmul_def fdiv_def
        fneg_def signed_zero_def rnd_numeral)
next
  assume "is_finite (unit_of slf d) \<and> is_finite z \<and> val z = 0"
  then show "same_number
          (resolvePosition \<lparr>value = z, anchors = \<lparr>self = Num (1 / 2), parent = Num (1 / 2)\<rparr>\<rparr> d slf p)
          (fadd (fsub (parent_at p d) (fdiv (unit_of p d) (Num 2))) (fmul (Num (1 / 2)) (unit_of p d)))"
    by (simp add: centred_reduction)
next
  assume a: "is_finite (unit_of slf d) \<and> is_finite z \<and> val z = 0
        \<and> is_finite (parent_at p d) \<and> is_double (parent_at p d)
        \<and> exact_offset (parent_at p d) (unit_of p d)"
  then have "same_number
          (resolvePosition \<lparr>value = z, anchors = \<lparr>self = Num (1 / 2), parent = Num (1 / 2)\<rparr>\<rparr> d slf p)
          (fadd (fsub (parent_at p d) (fdiv (unit_of p d) (Num 2))) (fmul (Num (1 / 2)) (unit_of p d)))"
    by (simp add: centred_reduction)
  moreover have "strict_equals
          (fadd (fsub (parent_at p d) (fdiv (unit_of p d) (Num 2))) (fmul (Num (1 / 2)) (unit_of p d)))
          (parent_at p d)"
    using a by (simp add: centred_offset_exact)
  ultimately show "strict_equals
          (resolvePosition \<lparr>value = z, anchors = \<lparr>self = Num (1 / 2), parent = Num (1 / 2)\<rparr>\<rparr> d slf p)
          (parent_at p d)"
    by (rule same_strict)
next
  assume "\<not> is_finite (unit_of slf d)"
  then show "resolvePosition \<lparr>value = z, anchors = \<lparr>self = Num (1 / 2), parent = Num (1 / 2)\<rparr>\<rparr> d slf p = NaN"
    by (rule centred_not_finite)
next
  show "is_double (resolvePosition pos d slf p)"
    unfolding resolvePosition_def by (rule is_double_fadd_any)
qed

theorem resolvePosition_in_double_arithmetic_witness:
  "is_finite (unit_of \<lparr>width = Num 37, height = Num 11\<rparr> X) \<and> is_finite NegZero \<and> val NegZero = 0
   \<and> is_finite (parent_at \<lparr>width = Num 3, height = Num 80, x = Num (1 / 2), y = Num 40\<rparr> X)
   \<and> is_double (parent_at \<lparr>width = Num 3, height = Num 80, x = Num (1 / 2), y = Num 40\<rparr> X)
   \<and> exact_offset (parent_at \<lparr>width = Num 3, height = Num 80, x = Num (1 / 2), y = Num 40\<rparr> X)
         (unit_of \<lparr>width = Num 3, height = Num 80, x = Num (1 / 2), y = Num 40\<rparr> X)
   \<and> strict_equals
         (resolvePosition \<lparr>value = NegZero, anchors = \<lparr>self = Num (1 / 2), parent = Num (1 / 2)\<rparr>\<rparr> X
            \<lparr>width = Num 37, height = Num 11\<rparr> \<lparr>width = Num 3, height = Num 80, x = Num (1 / 2), y = Num 40\<rparr>)
         (Num (1 / 2))
   \<and> \<not> is_finite (unit_of \<lparr>width = Infinity False, height = Num 11\<rparr> X)
   \<and> resolvePosition \<lparr>value = NegZero, anchors = \<lparr>self = Num (1 / 2), parent = Num (1 / 2)\<rparr>\<rparr> X
         \<lparr>width = Infinity False, height = Num 11\<rparr> \<lparr>width = Num 3, height = Num 80, x = Num (1 / 2), y = Num 40\<rparr>
       = NaN"
proof -
  have h: "rnd (1 / 2) = Num (1 / 2)" "rnd (3 / 2) = Num (3 / 2)" "rnd (- 1) = Num (- 1)"
    using rnd_dyadic [where n = 1 and k = "- 1"] rnd_dyadic [where n = 3 and k = "- 1"]
      rnd_int [of "- 1"]
    by (simp_all add: power_int_minus)
  have d: "is_double (parent_at \<lparr>width = Num 3, height = Num 80, x = Num (1 / 2), y = Num 40\<rparr> X)"
    by (simp add: parent_at_def is_double_def h)
  have e: "exact_offset (parent_at \<lparr>width = Num 3, height = Num 80, x = Num (1 / 2), y = Num 40\<rparr> X)
         (unit_of \<lparr>width = Num 3, height = Num 80, x = Num (1 / 2), y = Num 40\<rparr> X)"
    by (simp add: exact_offset_def parent_at_def unit_of_def fdiv_def fsub_def fneg_def fadd_def h
          rnd_neg_numeral)
  have f: "is_finite (unit_of \<lparr>width = Num 37, height = Num 11\<rparr> X)" "is_finite NegZero" "val NegZero = 0"
    "is_finite (parent_at \<lparr>width = Num 3, height = Num 80, x = Num (1 / 2), y = Num 40\<rparr> X)"
    by (simp_all add: unit_of_def parent_at_def)
  have "strict_equals
         (resolvePosition \<lparr>value = NegZero, anchors = \<lparr>self = Num (1 / 2), parent = Num (1 / 2)\<rparr>\<rparr> X
            \<lparr>width = Num 37, height = Num 11\<rparr> \<lparr>width = Num 3, height = Num 80, x = Num (1 / 2), y = Num 40\<rparr>)
         (parent_at \<lparr>width = Num 3, height = Num 80, x = Num (1 / 2), y = Num 40\<rparr> X)"
    by (rule resolvePosition_in_double_arithmetic
               [where d = X and slf = "\<lparr>width = Num 37, height = Num 11\<rparr>" and z = NegZero
                  and p = "\<lparr>width = Num 3, height = Num 80, x = Num (1 / 2), y = Num 40\<rparr>",
                THEN conjunct2, THEN conjunct2, THEN conjunct2, THEN conjunct2, THEN conjunct1,
                THEN mp])
       (intro conjI f d e)
  then have "strict_equals
         (resolvePosition \<lparr>value = NegZero, anchors = \<lparr>self = Num (1 / 2), parent = Num (1 / 2)\<rparr>\<rparr> X
            \<lparr>width = Num 37, height = Num 11\<rparr> \<lparr>width = Num 3, height = Num 80, x = Num (1 / 2), y = Num 40\<rparr>)
         (Num (1 / 2))"
    by (simp add: parent_at_def)
  moreover have i: "\<not> is_finite (unit_of \<lparr>width = Infinity False, height = Num 11\<rparr> X)"
    by (simp add: unit_of_def)
  moreover have "resolvePosition \<lparr>value = NegZero, anchors = \<lparr>self = Num (1 / 2), parent = Num (1 / 2)\<rparr>\<rparr> X
         \<lparr>width = Infinity False, height = Num 11\<rparr> \<lparr>width = Num 3, height = Num 80, x = Num (1 / 2), y = Num 40\<rparr>
       = NaN"
    by (rule resolvePosition_in_double_arithmetic
               [where d = X and slf = "\<lparr>width = Infinity False, height = Num 11\<rparr>" and z = NegZero
                  and p = "\<lparr>width = Num 3, height = Num 80, x = Num (1 / 2), y = Num 40\<rparr>",
                THEN conjunct2, THEN conjunct2, THEN conjunct2, THEN conjunct2, THEN conjunct2,
                THEN conjunct1, THEN mp])
       (rule i)
  ultimately show ?thesis
    by (intro conjI f d e)
qed

subsection \<open>Cleanup\<close>

lemma clean_loop_closed:
  "clean_loop es keys lk px jn =
     (lk\<lparr>byIdentifier := filter (\<lambda>(i, _). i \<notin> fst ` set (filter (\<lambda>(i, _). i \<notin> set keys) es)) (byIdentifier lk),
         configBy := filter (\<lambda>(h, _). h \<notin> snd ` set (filter (\<lambda>(i, _). i \<notin> set keys) es)) (configBy lk)\<rparr>,
      px\<lparr>stage := filter (\<lambda>h. h \<notin> snd ` set (filter (\<lambda>(i, _). i \<notin> set keys) es)) (stage px)\<rparr>,
      jn\<lparr>destroyed := destroyed jn @ map snd (filter (\<lambda>(i, _). i \<notin> set keys) es)\<rparr>)"
proof (induction es arbitrary: lk px jn)
  case Nil
  then show ?case by simp
next
  case (Cons e es)
  obtain ident item where e: "e = (ident, item)" by (cases e)
  show ?case
  proof (cases "ident \<in> set keys")
    case True
    then show ?thesis using Cons.IH e by simp
  next
    case False
    have d1: "AList.delete ident xs = filter (\<lambda>(i, _). i \<noteq> ident) xs" for xs :: "(string \<times> handle) list"
      by (induction xs) (auto simp: AList.delete_eq)
    have d2: "AList.delete item xs = filter (\<lambda>(h, _). h \<noteq> item) xs" for xs :: "(handle \<times> config_ref) list"
      by (induction xs) (auto simp: AList.delete_eq)
    have d3: "removeAll item xs = filter (\<lambda>h. h \<noteq> item) xs" for xs :: "handle list"
      by (induction xs) auto
    show ?thesis using False e
      apply (simp add: Cons.IH destroy_def d1 d2 d3 Let_def)
      apply (intro conjI lookup.equality pixi.equality; simp)
        apply (rule filter_cong; auto)+
      done
  qed
qed

lemma clean_byIdentifier:
  "byIdentifier (fst (clean current lk px jn)) = kept_entries current lk"
proof (cases current)
  case None
  then show ?thesis by (simp add: clean_def kept_entries_def)
next
  case (Some sec)
  have "filter (\<lambda>(i, _). i \<notin> fst ` set (filter (\<lambda>(i, _). i \<notin> set (map fst sec)) es)) es
        = filter (\<lambda>(i, _). i \<in> fst ` set sec) es" for es :: "(string \<times> handle) list"
    by (rule filter_cong) (auto simp: image_iff)
  then show ?thesis using Some
    by (simp add: clean_def kept_entries_def clean_loop_closed)
qed

lemma clean_destroyed:
  "destroyed (snd (snd (clean current lk px jn))) = destroyed jn @ map snd (absent_entries current lk)"
  by (cases current) (simp_all add: clean_def absent_entries_def clean_loop_closed)

lemma clean_made: "made (snd (snd (clean current lk px jn))) = made jn"
  by (cases current) (simp_all add: clean_def clean_loop_closed)

lemma clean_next_handle: "next_handle (fst (snd (clean current lk px jn))) = next_handle px"
  by (cases current) (simp_all add: clean_def clean_loop_closed)

lemma clean_identifierBy: "identifierBy (fst (clean current lk px jn)) = identifierBy lk"
  by (cases current) (simp_all add: clean_def clean_loop_closed)

lemma clean_byTag:
  "byTag (fst (clean current lk px jn)) = (case current of None \<Rightarrow> byTag lk | Some _ \<Rightarrow> [])"
  by (cases current) (simp_all add: clean_def clean_loop_closed)

lemma prepare_clean_journal:
  "destroyed (journal (prepare_clean inp w)) =
     destroyed (journal w) @ map snd (absent_entries (Sprite inp) (lookup_Sprite (scope w)))
       @ map snd (absent_entries (Graphic inp) (lookup_Graphic (scope w)))
       @ map snd (absent_entries (Filter inp) (lookup_Filter (scope w)))"
  "made (journal (prepare_clean inp w)) = made (journal w)"
  "next_handle (pixi (prepare_clean inp w)) = next_handle (pixi w)"
proof -
  obtain lkS px1 jn1 where s: "clean (Sprite inp) (lookup_Sprite (scope w)) (pixi w) (journal w) = (lkS, px1, jn1)"
    by (metis prod_cases3)
  obtain lkG px2 jn2 where g: "clean (Graphic inp) (lookup_Graphic (scope w)) px1 jn1 = (lkG, px2, jn2)"
    by (metis prod_cases3)
  obtain lkF px3 jn3 where f: "clean (Filter inp) (lookup_Filter (scope w)) px2 jn2 = (lkF, px3, jn3)"
    by (metis prod_cases3)
  have jn: "journal (prepare_clean inp w) = jn3" and px: "pixi (prepare_clean inp w) = px3"
    using s g f by (simp_all add: prepare_clean_def Let_def)
  have "destroyed jn1 = destroyed (journal w) @ map snd (absent_entries (Sprite inp) (lookup_Sprite (scope w)))"
    using clean_destroyed [of "Sprite inp" "lookup_Sprite (scope w)" "pixi w" "journal w"] s by simp
  moreover have "destroyed jn2 = destroyed jn1 @ map snd (absent_entries (Graphic inp) (lookup_Graphic (scope w)))"
    using clean_destroyed [of "Graphic inp" "lookup_Graphic (scope w)" px1 jn1] g by simp
  moreover have "destroyed jn3 = destroyed jn2 @ map snd (absent_entries (Filter inp) (lookup_Filter (scope w)))"
    using clean_destroyed [of "Filter inp" "lookup_Filter (scope w)" px2 jn2] f by simp
  ultimately show "destroyed (journal (prepare_clean inp w)) =
     destroyed (journal w) @ map snd (absent_entries (Sprite inp) (lookup_Sprite (scope w)))
       @ map snd (absent_entries (Graphic inp) (lookup_Graphic (scope w)))
       @ map snd (absent_entries (Filter inp) (lookup_Filter (scope w)))"
    using jn by simp
  show "made (journal (prepare_clean inp w)) = made (journal w)"
    using jn clean_made [of "Sprite inp" "lookup_Sprite (scope w)" "pixi w" "journal w"]
      clean_made [of "Graphic inp" "lookup_Graphic (scope w)" px1 jn1]
      clean_made [of "Filter inp" "lookup_Filter (scope w)" px2 jn2] s g f by simp
  show "next_handle (pixi (prepare_clean inp w)) = next_handle (pixi w)"
    using px clean_next_handle [of "Sprite inp" "lookup_Sprite (scope w)" "pixi w" "journal w"]
      clean_next_handle [of "Graphic inp" "lookup_Graphic (scope w)" px1 jn1]
      clean_next_handle [of "Filter inp" "lookup_Filter (scope w)" px2 jn2] s g f by simp
qed

lemma clean_lookup_only:
  "fst (clean current lk px jn) = fst (clean current lk px' jn')"
  by (cases current) (simp_all add: clean_def clean_loop_closed)

lemma prepare_clean_lookups:
  "lookup_Sprite (scope (prepare_clean inp w)) =
     fst (clean (Sprite inp) (lookup_Sprite (scope w)) (pixi w) (journal w))"
  "lookup_Graphic (scope (prepare_clean inp w)) =
     fst (clean (Graphic inp) (lookup_Graphic (scope w)) (pixi w) (journal w))"
  "lookup_Filter (scope (prepare_clean inp w)) =
     fst (clean (Filter inp) (lookup_Filter (scope w)) (pixi w) (journal w))"
proof -
  obtain lkS px1 jn1 where s: "clean (Sprite inp) (lookup_Sprite (scope w)) (pixi w) (journal w) = (lkS, px1, jn1)"
    by (metis prod_cases3)
  obtain lkG px2 jn2 where g: "clean (Graphic inp) (lookup_Graphic (scope w)) px1 jn1 = (lkG, px2, jn2)"
    by (metis prod_cases3)
  obtain lkF px3 jn3 where f: "clean (Filter inp) (lookup_Filter (scope w)) px2 jn2 = (lkF, px3, jn3)"
    by (metis prod_cases3)
  show "lookup_Sprite (scope (prepare_clean inp w)) =
     fst (clean (Sprite inp) (lookup_Sprite (scope w)) (pixi w) (journal w))"
    using s g f by (simp add: prepare_clean_def Let_def)
  have "lookup_Graphic (scope (prepare_clean inp w)) = lkG"
    using s g f by (simp add: prepare_clean_def Let_def)
  then show "lookup_Graphic (scope (prepare_clean inp w)) =
     fst (clean (Graphic inp) (lookup_Graphic (scope w)) (pixi w) (journal w))"
    using g clean_lookup_only [of "Graphic inp" "lookup_Graphic (scope w)" px1 jn1 "pixi w" "journal w"]
    by simp
  have "lookup_Filter (scope (prepare_clean inp w)) = lkF"
    using s g f by (simp add: prepare_clean_def Let_def)
  then show "lookup_Filter (scope (prepare_clean inp w)) =
     fst (clean (Filter inp) (lookup_Filter (scope w)) (pixi w) (journal w))"
    using f clean_lookup_only [of "Filter inp" "lookup_Filter (scope w)" px2 jn2 "pixi w" "journal w"]
    by simp
qed

text \<open>
  C1. The claim asks that an object whose identifier has left the snapshot be removed
  from all four views of its registry and destroyed once. The world \<open>world_ab\<close> holds
  the sprites \<open>a\<close> (object 2) and \<open>b\<close> (object 3); reconciling the snapshot that has
  only \<open>a\<close> completes, \<open>b\<close> is gone from the identifier view and from the config view,
  the tag view is empty and object 3 is destroyed once, but the view from objects to
  identifiers still maps object 3 to \<open>b\<close>: \<open>clean\<close> never deletes from \<open>identifierBy\<close>.
\<close>

theorem clean_keeps_identifierBy_entry:
  "fst (prepare idle_externals (\<lambda>_. plain_config) snapshot_a world_ab) = None
   \<and> map_of (byIdentifier (lookup_Sprite (scope world_ab))) ''b'' = Some 3
   \<and> map_of (byIdentifier (lookup_Sprite (scope (snd (prepare idle_externals (\<lambda>_. plain_config) snapshot_a world_ab))))) ''b'' = None
   \<and> map_of (configBy (lookup_Sprite (scope (snd (prepare idle_externals (\<lambda>_. plain_config) snapshot_a world_ab))))) 3 = None
   \<and> byTag (lookup_Sprite (scope (snd (prepare idle_externals (\<lambda>_. plain_config) snapshot_a world_ab)))) = []
   \<and> destroyed (journal (snd (prepare idle_externals (\<lambda>_. plain_config) snapshot_a world_ab))) = [3]
   \<and> map_of (identifierBy (lookup_Sprite (scope (snd (prepare idle_externals (\<lambda>_. plain_config) snapshot_a world_ab))))) 3 = Some ''b''"
  by code_simp

subsection \<open>Load failure\<close>

lemma load_scope:
  "case load ext sc inp locate of
     (Inl e, sc') \<Rightarrow> sc' = sc
   | (Inr txs, sc') \<Rightarrow> sc' = sc \<or> sc' = sc\<lparr>texturesFromSheet := Some txs\<rparr>"
  by (simp add: load_def split: option.split sum.split)

lemma load_failure_scope:
  assumes "fst (load ext sc inp locate) = Inl e"
  shows "snd (load ext sc inp locate) = sc"
proof (cases "load ext sc inp locate")
  case (Pair r sc')
  with assms load_scope [where ext = ext and sc = sc and inp = inp and locate = locate]
  show ?thesis by simp
qed

lemma load_success_scope:
  assumes "load ext sc inp locate = (Inr txs, sc')"
  shows "sc' = sc \<or> sc' = sc\<lparr>texturesFromSheet := Some txs\<rparr>"
  using assms load_scope [where ext = ext and sc = sc and inp = inp and locate = locate]
  by simp

text \<open>
  C2, as stated, does not hold: in \<open>prepare\<close> the cleanup runs before the load is
  awaited. With a loader that rejects, reconciling the snapshot that has only \<open>a\<close> in
  \<open>world_ab\<close> hands the rejection to the caller, and by then the entry of \<open>b\<close> is gone
  from the Sprite registry and object 3 is destroyed.
\<close>

theorem prepare_load_failure_counterexample:
  "fst (prepare offline_externals (\<lambda>_. plain_config) snapshot_a world_ab) = Some (Failure ''offline'')
   \<and> byIdentifier (lookup_Sprite (scope world_ab)) = [(''a'', 2), (''b'', 3)]
   \<and> byIdentifier (lookup_Sprite (scope (snd (prepare offline_externals (\<lambda>_. plain_config) snapshot_a world_ab)))) = [(''a'', 2)]
   \<and> destroyed (journal world_ab) = []
   \<and> destroyed (journal (snd (prepare offline_externals (\<lambda>_. plain_config) snapshot_a world_ab))) = [3]"
  by code_simp

text \<open>
  C2, amended. If the load fails, \<open>prepare\<close> hands that failure to the caller and leaves
  the state that its cleanup statements produced, and nothing else: no factory has been
  called and no object allocated; each of the three registries keeps exactly the entries
  whose identifier is a key of the new section (all of them when the section is
  undefined); the objects destroyed are the absent ones of the three kinds, each once, in
  the order Sprite, Graphic, Filter.
\<close>

theorem prepare_load_failure_after_cleanup:
  assumes "fst (load ext (scope (prepare_clean inp w)) inp (getLocater (scope (prepare_clean inp w)))) = Inl e"
  shows "prepare ext store inp w = (Some e, prepare_clean inp w)
    \<and> made (journal (prepare_clean inp w)) = made (journal w)
    \<and> next_handle (pixi (prepare_clean inp w)) = next_handle (pixi w)
    \<and> byIdentifier (lookup_Sprite (scope (prepare_clean inp w))) = kept_entries (Sprite inp) (lookup_Sprite (scope w))
    \<and> byIdentifier (lookup_Graphic (scope (prepare_clean inp w))) = kept_entries (Graphic inp) (lookup_Graphic (scope w))
    \<and> byIdentifier (lookup_Filter (scope (prepare_clean inp w))) = kept_entries (Filter inp) (lookup_Filter (scope w))
    \<and> destroyed (journal (prepare_clean inp w)) =
         destroyed (journal w) @ map snd (absent_entries (Sprite inp) (lookup_Sprite (scope w)))
           @ map snd (absent_entries (Graphic inp) (lookup_Graphic (scope w)))
           @ map snd (absent_entries (Filter inp) (lookup_Filter (scope w)))"
proof -
  let ?w1 = "prepare_clean inp w"
  let ?l = "load ext (scope ?w1) inp (getLocater (scope ?w1))"
  have "snd ?l = scope ?w1"
    using assms by (rule load_failure_scope)
  then have l: "?l = (Inl e, scope ?w1)"
    using assms by (metis prod.collapse)
  have "prepare ext store inp w = (Some e, ?w1)"
    unfolding prepare_def Let_def l by simp
  then show ?thesis
    by (simp add: prepare_clean_journal prepare_clean_lookups clean_byIdentifier)
qed

theorem prepare_load_failure_after_cleanup_witness:
  "fst (load offline_externals (scope (prepare_clean snapshot_a world_ab)) snapshot_a
          (getLocater (scope (prepare_clean snapshot_a world_ab)))) = Inl (Failure ''offline'')
   \<and> prepare offline_externals (\<lambda>_. plain_config) snapshot_a world_ab
       = (Some (Failure ''offline''), prepare_clean snapshot_a world_ab)
   \<and> byIdentifier (lookup_Sprite (scope (prepare_clean snapshot_a world_ab))) = [(''a'', 2)]
   \<and> destroyed (journal (prepare_clean snapshot_a world_ab)) = [3]
   \<and> made (journal (prepare_clean snapshot_a world_ab)) = [(PIXI_Sprite, ''a''), (PIXI_Sprite, ''b'')]"
proof -
  have l: "fst (load offline_externals (scope (prepare_clean snapshot_a world_ab)) snapshot_a
          (getLocater (scope (prepare_clean snapshot_a world_ab)))) = Inl (Failure ''offline'')"
    by code_simp
  have k: "kept_entries (Sprite snapshot_a) (lookup_Sprite (scope world_ab)) = [(''a'', 2)]"
    by code_simp
  have a: "absent_entries (Sprite snapshot_a) (lookup_Sprite (scope world_ab)) = [(''b'', 3)]"
      "absent_entries (Graphic snapshot_a) (lookup_Graphic (scope world_ab)) = []"
      "absent_entries (Filter snapshot_a) (lookup_Filter (scope world_ab)) = []"
    by code_simp+
  have j: "destroyed (journal world_ab) = []"
      "made (journal world_ab) = [(PIXI_Sprite, ''a''), (PIXI_Sprite, ''b'')]"
    by code_simp+
  show ?thesis
    using prepare_load_failure_after_cleanup [OF l, of "\<lambda>_. plain_config"] l k a j
    by simp
qed

subsection \<open>Creation\<close>

lemma create_loop_Cons:
  "create_loop store factory ((ident, cref) # rest) (lk, cbi, px, jn) =
     (case obtained factory ident lk px jn of
        (item, px1, jn1) \<Rightarrow>
          create_loop store factory rest
            (registered (store cref) ident cref item lk, staged (store cref) item cbi,
             px1\<lparr>filters := (filters px1)(item := Some [])\<rparr>, jn1))"
  by (simp add: obtained_def registered_def staged_def Let_def split: option.split prod.split)

lemma setOrAppend_keys: "fst ` set (setOrAppend m k v) = insert k (fst ` set m)"
  by (simp add: setOrAppend_def dom_update split: option.split)

lemma staged_keys:
  "fst ` set cbi \<subseteq> fst ` set (staged config item cbi)"
  "parent config = Some p \<Longrightarrow> p \<noteq> [] \<Longrightarrow> p \<in> fst ` set (staged config item cbi)"
  by (auto simp: staged_def setOrAppend_keys split: option.split)

lemma registered_keys:
  "fst ` set (byIdentifier (registered config ident cref item lk)) = insert ident (fst ` set (byIdentifier lk))"
  by (simp add: registered_def dom_update)

lemma create_loop_keys:
  "create_loop store factory sec (lk, cbi, px, jn) = (lk', cbi', px', jn') \<Longrightarrow>
     fst ` set (byIdentifier lk') = fst ` set (byIdentifier lk) \<union> fst ` set sec
     \<and> fst ` set cbi \<subseteq> fst ` set cbi'
     \<and> (\<forall>(ident, cref) \<in> set sec. \<forall>p. parent (store cref) = Some p \<and> p \<noteq> [] \<longrightarrow> p \<in> fst ` set cbi')"
proof (induction sec arbitrary: lk cbi px jn)
  case Nil
  then show ?case by simp
next
  case (Cons e sec)
  obtain i c where e: "e = (i, c)" by (cases e)
  obtain item px1 jn1 where ob: "obtained factory i lk px jn = (item, px1, jn1)"
    by (metis prod_cases3)
  let ?lk = "registered (store c) i c item lk"
  let ?cbi = "staged (store c) item cbi"
  let ?px = "px1\<lparr>filters := (filters px1)(item := Some [])\<rparr>"
  from Cons.prems have r: "create_loop store factory sec (?lk, ?cbi, ?px, jn1) = (lk', cbi', px', jn')"
    by (simp add: e create_loop_Cons ob del: create_loop.simps)
  from Cons.IH [OF r]
  have ih1: "fst ` set (byIdentifier lk') = fst ` set (byIdentifier ?lk) \<union> fst ` set sec"
    and ih2: "fst ` set ?cbi \<subseteq> fst ` set cbi'"
    and ih3: "\<forall>(ident, cref) \<in> set sec. \<forall>p. parent (store cref) = Some p \<and> p \<noteq> [] \<longrightarrow> p \<in> fst ` set cbi'"
    by simp_all
  have k: "fst ` set (byIdentifier lk') = fst ` set (byIdentifier lk) \<union> fst ` set (e # sec)"
    unfolding ih1 registered_keys e by auto
  have s: "fst ` set cbi \<subseteq> fst ` set cbi'"
    using ih2 staged_keys(1) [of cbi "store c" item] by (rule_tac order_trans)
  have h: "p \<in> fst ` set cbi'" if "parent (store c) = Some p" "p \<noteq> []" for p
    using staged_keys(2) [OF that, of item cbi] ih2 by (rule_tac subsetD)
  have d: "\<forall>(ident, cref) \<in> set (e # sec). \<forall>p. parent (store cref) = Some p \<and> p \<noteq> [] \<longrightarrow> p \<in> fst ` set cbi'"
    using ih3 h by (simp add: e)
  show ?case using k s d by (intro conjI)
qed

lemma create_entries: "create store configs factory st = create_loop store factory (entries configs) st"
  by (simp add: create_def entries_def split: option.split)

subsection \<open>Relationships\<close>

lemma formRelationships_loop_frame:
  "formRelationships_loop cbi sc = (r, sc') \<Longrightarrow>
     lookup_Sprite sc' = lookup_Sprite sc \<and> lookup_Graphic sc' = lookup_Graphic sc
     \<and> lookup_Filter sc' = lookup_Filter sc \<and> alias sc' = alias sc"
proof (induction cbi arbitrary: sc)
  case Nil
  then show ?case by simp
next
  case (Cons e cbi)
  obtain ident kids where e: "e = (ident, kids)" by (cases e)
  show ?case
  proof (cases "resolve_parent (lookup_Sprite sc) (alias sc) ident")
    case (Inl err)
    then show ?thesis using Cons.prems e by simp
  next
    case (Inr par)
    let ?sc = "sc\<lparr>childrenByParent := AList.update par kids (childrenByParent sc),
                 parentByChild := fold (\<lambda>child m. AList.update child par m) kids (parentByChild sc)\<rparr>"
    have "formRelationships_loop cbi ?sc = (r, sc')"
      using Cons.prems e Inr by simp
    from Cons.IH [OF this] show ?thesis by simp
  qed
qed

lemma formRelationships_loop_fails:
  "(ident, kids) \<in> set cbi \<Longrightarrow> resolve_parent (lookup_Sprite sc) (alias sc) ident = Inl err
     \<Longrightarrow> fst (formRelationships_loop cbi sc) = Some TypeError"
proof (induction cbi arbitrary: sc)
  case Nil
  then show ?case by simp
next
  case (Cons e cbi)
  obtain i k where e: "e = (i, k)" by (cases e)
  have te: "resolve_parent sp al x = Inl err' \<Longrightarrow> err' = TypeError" for sp al x err'
    by (auto simp: resolve_parent_def split: option.splits if_splits)
  show ?case
  proof (cases "resolve_parent (lookup_Sprite sc) (alias sc) i")
    case (Inl err')
    then show ?thesis using e te by simp
  next
    case (Inr par)
    let ?sc = "sc\<lparr>childrenByParent := AList.update par k (childrenByParent sc),
                 parentByChild := fold (\<lambda>child m. AList.update child par m) k (parentByChild sc)\<rparr>"
    have "ident \<noteq> i" using Cons.prems(2) Inr by auto
    then have m: "(ident, kids) \<in> set cbi" using Cons.prems(1) e by simp
    have "fst (formRelationships_loop cbi ?sc) = Some TypeError"
      using Cons.IH [OF m] Cons.prems(2) by simp
    then show ?thesis using e Inr by simp
  qed
qed

lemma resolve_parent_throws:
  "map_of (byIdentifier sprites) p = None \<Longrightarrow> map_of table p = None \<Longrightarrow> p \<notin> set object_prototype_keys
     \<Longrightarrow> resolve_parent sprites (Some table) p = Inl TypeError"
  by (simp add: resolve_parent_def)

lemma configureVisuals_steps:
  assumes "create store (Graphic inp) mG (lookup_Graphic (scope w), [], pixi w, journal w) = (lkG, cbi1, px1, jn1)"
    and "create store (Sprite inp) mS (lookup_Sprite (scope w), cbi1, px1, jn1) = (lkS, cbi2, px2, jn2)"
    and "formRelationships ((scope w)\<lparr>lookup_Graphic := lkG, lookup_Sprite := lkS\<rparr>) cbi2 = (r1, sc2)"
  shows "configureVisuals ext store inp mS mG w =
     (let w2 = \<lparr>scope = sc2, pixi = px2, childrenByIdentifier = cbi2, journal = jn2\<rparr>
      in case r1 of
           Some e \<Rightarrow> (Some e, w2)
         | None \<Rightarrow>
             (case setupMasks store (Sprite inp) sc2 px2 of
                (Some e, px3) \<Rightarrow> (Some e, w2\<lparr>pixi := px3\<rparr>)
              | (None, px3) \<Rightarrow>
                  (case initialize store (lookup_Sprite sc2) sc2 (setSprite ext) px3 of
                     (Some e, px4) \<Rightarrow> (Some e, w2\<lparr>pixi := px4\<rparr>)
                   | (None, px4) \<Rightarrow>
                       (case initialize store (lookup_Graphic sc2) sc2 (drawGraphic ext) px4 of
                          (r, px5) \<Rightarrow> (r, w2\<lparr>pixi := px5\<rparr>)))))"
  using assms by (simp add: configureVisuals_def Let_def)

lemma configureVisuals_no_sprites:
  assumes "Sprite inp = None"
  shows "\<exists>e. fst (configureVisuals ext store inp mS mG w) = Some e"
proof -
  obtain lkG cbi1 px1 jn1 where g: "create store (Graphic inp) mG (lookup_Graphic (scope w), [], pixi w, journal w) = (lkG, cbi1, px1, jn1)"
    by (metis prod_cases4)
  obtain lkS cbi2 px2 jn2 where s: "create store (Sprite inp) mS (lookup_Sprite (scope w), cbi1, px1, jn1) = (lkS, cbi2, px2, jn2)"
    by (metis prod_cases4)
  obtain r1 sc2 where f: "formRelationships ((scope w)\<lparr>lookup_Graphic := lkG, lookup_Sprite := lkS\<rparr>) cbi2 = (r1, sc2)"
    by (metis prod.collapse)
  show ?thesis
    unfolding configureVisuals_steps [OF g s f]
    by (cases r1) (simp_all add: Let_def setupMasks_def assms)
qed

lemma configureVisuals_unresolved:
  assumes d: "(ident, cref) \<in> set (entries (Sprite inp)) \<union> set (entries (Graphic inp))"
    and p: "parent (store cref) = Some p" "p \<noteq> []"
    and n: "p \<notin> fst ` set (byIdentifier (lookup_Sprite (scope w)))" "p \<notin> fst ` set (entries (Sprite inp))"
    and a: "alias (scope w) = Some table" "map_of table p = None" "p \<notin> set object_prototype_keys"
  shows "fst (configureVisuals ext store inp mS mG w) = Some TypeError"
proof -
  obtain lkG cbi1 px1 jn1 where g: "create store (Graphic inp) mG (lookup_Graphic (scope w), [], pixi w, journal w) = (lkG, cbi1, px1, jn1)"
    by (metis prod_cases4)
  obtain lkS cbi2 px2 jn2 where s: "create store (Sprite inp) mS (lookup_Sprite (scope w), cbi1, px1, jn1) = (lkS, cbi2, px2, jn2)"
    by (metis prod_cases4)
  let ?sc1 = "(scope w)\<lparr>lookup_Graphic := lkG, lookup_Sprite := lkS\<rparr>"
  obtain r1 sc2 where f: "formRelationships ?sc1 cbi2 = (r1, sc2)"
    by (metis prod.collapse)
  note kg = create_loop_keys [OF g [unfolded create_entries]]
  note ks = create_loop_keys [OF s [unfolded create_entries]]
  have "p \<in> fst ` set cbi2"
  proof (cases "(ident, cref) \<in> set (entries (Sprite inp))")
    case True
    then show ?thesis using ks p by blast
  next
    case False
    then have "(ident, cref) \<in> set (entries (Graphic inp))" using d by simp
    then have "p \<in> fst ` set cbi1" using kg p by blast
    then show ?thesis using ks by blast
  qed
  then obtain kids where m: "(p, kids) \<in> set cbi2" by auto
  have "p \<notin> fst ` set (byIdentifier lkS)" using ks n by simp
  then have "map_of (byIdentifier lkS) p = None" by (simp add: map_of_eq_None_iff)
  then have "resolve_parent (lookup_Sprite ?sc1) (alias ?sc1) p = Inl TypeError"
    using a by (simp add: resolve_parent_throws)
  from formRelationships_loop_fails [OF m this] have "r1 = Some TypeError"
    using f by (simp add: formRelationships_def)
  then show ?thesis
    unfolding configureVisuals_steps [OF g s f] by simp
qed

lemma prepare_clean_alias: "alias (scope (prepare_clean inp w)) = Some (Alias inp)"
  by (simp add: prepare_clean_def Let_def split: prod.split)

lemma kept_entries_keys:
  "p \<notin> fst ` set sec \<Longrightarrow> p \<notin> fst ` set (kept_entries (Some sec) lk)"
  by (force simp: kept_entries_def)

text \<open>
  The unresolved path that does throw: a parent identifier that is no identifier of the
  Sprite section and has no entry in the alias table makes \<open>alias[identifier].assetPath\<close>
  read a property of \<open>undefined\<close>.
\<close>

lemma unresolved_parent_without_alias_entry_fails:
  assumes d: "(ident, cref) \<in> set (entries (Sprite inp)) \<union> set (entries (Graphic inp))"
    and p: "parent (store cref) = Some p" "p \<noteq> []"
    and n: "p \<notin> fst ` set (entries (Sprite inp))"
    and a: "map_of (Alias inp) p = None" "p \<notin> set object_prototype_keys"
  shows "\<exists>e. fst (prepare ext store inp w) = Some e"
proof -
  let ?w1 = "prepare_clean inp w"
  obtain r sc2 where l: "load ext (scope ?w1) inp (getLocater (scope ?w1)) = (r, sc2)"
    by (metis prod.collapse)
  show ?thesis
  proof (cases r)
    case (Inl e)
    then show ?thesis by (simp add: prepare_def Let_def l)
  next
    case (Inr txs)
    let ?w2 = "?w1\<lparr>scope := sc2\<rparr>"
    let ?cv = "configureVisuals ext store inp (makeSprite txs (getLocater (scope ?w1))) makeGraphic ?w2"
    from load_success_scope [OF l [unfolded Inr]]
    have same: "lookup_Sprite sc2 = lookup_Sprite (scope ?w1)" "alias sc2 = alias (scope ?w1)"
      by auto
    have "\<exists>e. fst ?cv = Some e"
    proof (cases "Sprite inp")
      case None
      then show ?thesis by (rule configureVisuals_no_sprites)
    next
      case (Some sec)
      have "byIdentifier (lookup_Sprite (scope ?w1)) = kept_entries (Some sec) (lookup_Sprite (scope w))"
        using Some by (simp add: prepare_clean_lookups clean_byIdentifier)
      then have "p \<notin> fst ` set (byIdentifier (lookup_Sprite (scope ?w2)))"
        using kept_entries_keys [of p sec "lookup_Sprite (scope w)"] n Some same
        by (simp add: entries_def)
      moreover have "alias (scope ?w2) = Some (Alias inp)"
        using same by (simp add: prepare_clean_alias)
      ultimately have "fst ?cv = Some TypeError"
        using configureVisuals_unresolved
                [where store = store and cref = cref and ident = ident and p = p and inp = inp
                   and w = "?w2" and table = "Alias inp", OF d p _ n _ a]
        by blast
      then show ?thesis by blast
    qed
    then obtain e where "fst ?cv = Some e" by blast
    then obtain w3 where "?cv = (Some e, w3)" by (metis prod.collapse)
    then have "fst (prepare ext store inp w) = Some e"
      by (simp add: prepare_def Let_def l Inr)
    then show ?thesis by blast
  qed
qed

lemma unresolved_parent_without_alias_entry_fails_example:
  "(''child'', 1) \<in> set (entries (Sprite snapshot_orphan_no_alias)) \<union> set (entries (Graphic snapshot_orphan_no_alias))
   \<and> parent (orphan_store 1) = Some ''P''
   \<and> ''P'' \<notin> fst ` set (entries (Sprite snapshot_orphan_no_alias))
   \<and> map_of (Alias snapshot_orphan_no_alias) ''P'' = None
   \<and> ''P'' \<notin> set object_prototype_keys
   \<and> (\<exists>e. fst (prepare idle_externals orphan_store snapshot_orphan_no_alias fresh_world) = Some e)"
proof -
  have d: "(''child'', 1) \<in> set (entries (Sprite snapshot_orphan_no_alias)) \<union> set (entries (Graphic snapshot_orphan_no_alias))"
    by code_simp
  have p: "parent (orphan_store 1) = Some ''P''" "''P'' \<noteq> []"
    by code_simp+
  have n: "''P'' \<notin> fst ` set (entries (Sprite snapshot_orphan_no_alias))"
    by code_simp
  have a: "map_of (Alias snapshot_orphan_no_alias) ''P'' = None" "''P'' \<notin> set object_prototype_keys"
    by code_simp+
  show ?thesis
    using unresolved_parent_without_alias_entry_fails
            [where store = orphan_store and cref = 1 and ident = "''child''" and p = "''P''"
               and inp = snapshot_orphan_no_alias and ext = idle_externals and w = fresh_world,
             OF d p n a] d p n a
    by blast
qed

text \<open>
  C3. The claim asks that a reconciliation fail when a declared parent resolves to a
  registered sprite neither directly nor through the alias table. The only sprite of
  \<open>snapshot_orphan\<close> declares the parent \<open>P\<close>; no sprite is registered as \<open>P\<close>, and the
  alias table sends \<open>P\<close> to \<open>Q\<close>, which is no sprite either. The reconciliation
  completes, and the relationship maps record the child (object 2) under the parent
  \<open>undefined\<close>: \<open>formRelationships\<close> asserts with \<open>!\<close> that the parent is found and never
  checks it. The same snapshot without the alias entry fails with a type error.
\<close>

theorem unresolved_alias_target_links_undefined_parent:
  "fst (prepare idle_externals orphan_store snapshot_orphan fresh_world) = None
   \<and> parent (orphan_store 1) = Some ''P''
   \<and> map_of (byIdentifier (lookup_Sprite (scope (snd (prepare idle_externals orphan_store snapshot_orphan fresh_world))))) ''P'' = None
   \<and> map_of (Alias snapshot_orphan) ''P'' = Some ''Q''
   \<and> map_of (byIdentifier (lookup_Sprite (scope (snd (prepare idle_externals orphan_store snapshot_orphan fresh_world))))) ''Q'' = None
   \<and> childrenByParent (scope (snd (prepare idle_externals orphan_store snapshot_orphan fresh_world))) = [(None, [2])]
   \<and> parentByChild (scope (snd (prepare idle_externals orphan_store snapshot_orphan fresh_world))) = [(2, None)]
   \<and> fst (prepare idle_externals orphan_store snapshot_orphan_no_alias fresh_world) = Some TypeError"
  by code_simp

subsection \<open>Hit testing\<close>

lemma challenge_alt:
  "(case best of None \<Rightarrow> Some c
    | Some t \<Rightarrow> if zIndex_of t < zIndex_of c then Some c else best) = challenge c best"
  by (cases best) (simp_all add: challenge_def)

lemma holds_point_inclusive: "holds_point b qx qy = contains_inclusive b qx qy"
  by (auto simp: holds_point_def contains_inclusive_def)

lemma levels_visited_chain: "levels_visited item qx qy = chain (rev (children item)) qx qy"
  by (subst levels_visited.simps) (simp add: chain_def first_hit_def holds_point_inclusive)

lemma traverse_chain: "traverse cs qx qy best = foldr challenge (chain cs qx qy) best"
proof (induction cs qx qy best rule: traverse.induct)
  case (1 qx qy topmost)
  then show ?case by (simp add: chain_def)
next
  case (2 child before qx qy topmost)
  show ?case
  proof (cases "holds_point (bounds_of child) qx qy")
    case False
    then show ?thesis using 2(2) by (simp add: chain_def)
  next
    case True
    show ?thesis
    proof (cases "isSceneItem child \<and> children child \<noteq> []")
      case deep: True
      have "traverse (rev (children child)) qx qy topmost
              = foldr challenge (levels_visited child qx qy) topmost"
        using 2(1) [OF True deep] by (simp add: levels_visited_chain)
      then show ?thesis using True deep
        by (simp add: chain_def Let_def challenge_alt)
    next
      case shallow: False
      then have "children child = []" by (cases child) auto
      then show ?thesis using True shallow
        by (simp add: chain_def Let_def challenge_alt)
    qed
  qed
qed

lemma foldr_challenge:
  "(foldr challenge cs None = None \<longleftrightarrow> cs = [])
   \<and> (\<forall>r. foldr challenge cs None = Some r \<longrightarrow>
          r \<in> set cs \<and> (\<forall>c \<in> set cs. zIndex_of c \<le> zIndex_of r))"
proof (induction cs)
  case Nil
  then show ?case by simp
next
  case (Cons c cs)
  show ?case
  proof (cases "foldr challenge cs None")
    case None
    then have "cs = []" using Cons.IH by simp
    then show ?thesis by (simp add: challenge_def)
  next
    case (Some t)
    then have t: "t \<in> set cs" "\<forall>d \<in> set cs. zIndex_of d \<le> zIndex_of t"
      using Cons.IH by auto
    have step: "foldr challenge (c # cs) None = challenge c (Some t)"
      using Some by simp
    show ?thesis
    proof (cases "zIndex_of c > zIndex_of t")
      case True
      then have "foldr challenge (c # cs) None = Some c"
        unfolding step challenge_def by simp
      moreover have "\<forall>d \<in> set (c # cs). zIndex_of d \<le> zIndex_of c"
        using t(2) True by auto
      ultimately show ?thesis by simp
    next
      case False
      then have "foldr challenge (c # cs) None = Some t"
        unfolding step challenge_def by simp
      moreover have "\<forall>d \<in> set (c # cs). zIndex_of d \<le> zIndex_of t"
        using t(2) False by auto
      ultimately show ?thesis using t(1) by simp
    qed
  qed
qed

text \<open>
  C5. The traversal agrees with the description: it finds nothing exactly when no child
  of the top level holds the point, and what it returns is one of the candidates the
  description visits (per level the first child hit in reverse insertion order, bounds
  inclusive, descending only into that child and never looking at its siblings again)
  with a z-index that no other candidate exceeds.
\<close>

theorem hit_test_follows_description:
  "(findTopmostObjectAtPosition top_item qx qy = None \<longleftrightarrow> levels_visited top_item qx qy = [])
   \<and> (\<forall>r. findTopmostObjectAtPosition top_item qx qy = Some r \<longrightarrow>
          r \<in> set (levels_visited top_item qx qy)
          \<and> (\<forall>c \<in> set (levels_visited top_item qx qy). zIndex_of c \<le> zIndex_of r))"
  unfolding findTopmostObjectAtPosition_def traverse_chain levels_visited_chain [symmetric]
  by (rule foldr_challenge)

theorem hit_test_follows_description_witness:
  "findTopmostObjectAtPosition nested_scene 3 3
     = Some (SceneItem 3 PIXI_Sprite \<lparr>width = 4, height = 4, x = 2, y = 2\<rparr> 3 [])
   \<and> levels_visited nested_scene 3 3
     = [SceneItem 2 PIXI_Container \<lparr>width = 10, height = 10, x = 0, y = 0\<rparr> 1
          [SceneItem 3 PIXI_Sprite \<lparr>width = 4, height = 4, x = 2, y = 2\<rparr> 3 []],
        SceneItem 3 PIXI_Sprite \<lparr>width = 4, height = 4, x = 2, y = 2\<rparr> 3 []]
   \<and> findTopmostObjectAtPosition nested_scene 10 10
     = Some (SceneItem 2 PIXI_Container \<lparr>width = 10, height = 10, x = 0, y = 0\<rparr> 1
          [SceneItem 3 PIXI_Sprite \<lparr>width = 4, height = 4, x = 2, y = 2\<rparr> 3 []])
   \<and> findTopmostObjectAtPosition nested_scene 11 11 = None
   \<and> levels_visited nested_scene 11 11 = []"
proof -
  have a: "findTopmostObjectAtPosition nested_scene 3 3
     = Some (SceneItem 3 PIXI_Sprite \<lparr>width = 4, height = 4, x = 2, y = 2\<rparr> 3 [])"
    by code_simp
  have b: "levels_visited nested_scene 11 11 = []"
    by code_simp
  have c: "findTopmostObjectAtPosition nested_scene 10 10
     = Some (SceneItem 2 PIXI_Container \<lparr>width = 10, height = 10, x = 0, y = 0\<rparr> 1
          [SceneItem 3 PIXI_Sprite \<lparr>width = 4, height = 4, x = 2, y = 2\<rparr> 3 []])"
    by code_simp
  have d: "levels_visited nested_scene 3 3
     = [SceneItem 2 PIXI_Container \<lparr>width = 10, height = 10, x = 0, y = 0\<rparr> 1
          [SceneItem 3 PIXI_Sprite \<lparr>width = 4, height = 4, x = 2, y = 2\<rparr> 3 []],
        SceneItem 3 PIXI_Sprite \<lparr>width = 4, height = 4, x = 2, y = 2\<rparr> 3 []]"
    by code_simp
  show ?thesis
    using hit_test_follows_description [of nested_scene 11 11] a b c d by simp
qed

lemma instanceof_exclusive: "instanceof result PIXI_Graphics \<Longrightarrow> \<not> instanceof result PIXI_Sprite"
  by (cases result) auto

text \<open>
  C10. When the candidate found is a sprite or a graphic with a config in its registry,
  \<open>getHit\<close> assigns the object's identifier to the \<open>identifier\<close> property of that
  config object itself, the one the registry's object-to-config view refers to, and posts
  the config as it then is. The store of config objects is changed by the query.
\<close>

theorem getHit_writes_identifier_into_stored_config:
  assumes "findTopmostObjectAtPosition (container_item sc px) qx qy = Some result"
    and "(instanceof result PIXI_Sprite \<and> lk = lookup_Sprite sc)
          \<or> (instanceof result PIXI_Graphics \<and> lk = lookup_Graphic sc)"
    and "map_of (configBy lk) (handle_of result) = Some cref"
  shows "snd (getHit sc px store qx qy)
           = store(cref := (store cref)\<lparr>identifier := map_of (identifierBy lk) (handle_of result)\<rparr>)
         \<and> fst (getHit sc px store qx qy) = Inr (Some (Config (snd (getHit sc px store qx qy) cref)))"
  using assms instanceof_exclusive [of result]
  by (auto simp: getHit_def hit_reply_def Let_def)

theorem getHit_writes_identifier_into_stored_config_witness:
  "findTopmostObjectAtPosition (container_item (scope world_ab) (sortChildren overlap_pixi)) 7 7
     = Some (item_of overlap_pixi 2)
   \<and> instanceof (item_of overlap_pixi 2) PIXI_Sprite
   \<and> map_of (configBy (lookup_Sprite (scope world_ab))) (handle_of (item_of overlap_pixi 2)) = Some 1
   \<and> identifier plain_config = None
   \<and> identifier (snd (getHit (scope world_ab) (sortChildren overlap_pixi) (\<lambda>_. plain_config) 7 7) 1) = Some ''a''
   \<and> fst (getHit (scope world_ab) (sortChildren overlap_pixi) (\<lambda>_. plain_config) 7 7)
       = Inr (Some (Config (plain_config\<lparr>identifier := Some ''a''\<rparr>)))"
proof -
  have f: "findTopmostObjectAtPosition (container_item (scope world_ab) (sortChildren overlap_pixi)) 7 7
     = Some (item_of overlap_pixi 2)"
    by code_simp
  have i: "instanceof (item_of overlap_pixi 2) PIXI_Sprite"
    by code_simp
  have c: "map_of (configBy (lookup_Sprite (scope world_ab))) (handle_of (item_of overlap_pixi 2)) = Some 1"
    by code_simp
  have n: "map_of (identifierBy (lookup_Sprite (scope world_ab))) (handle_of (item_of overlap_pixi 2)) = Some ''a''"
    by code_simp
  have p: "identifier plain_config = None"
    by code_simp
  show ?thesis
    using getHit_writes_identifier_into_stored_config
            [where lk = "lookup_Sprite (scope world_ab)" and store = "\<lambda>_. plain_config", OF f _ c] f i c n p
    by simp
qed

lemma find_last_of_sorted:
  "sorted (map z hs) \<Longrightarrow> b \<in> set hs \<Longrightarrow> P b
     \<Longrightarrow> (\<forall>c \<in> set hs. P c \<and> c \<noteq> b \<longrightarrow> z c < (z b :: real))
     \<Longrightarrow> find P (rev hs) = Some b"
proof (induction hs rule: rev_induct)
  case Nil
  then show ?case by simp
next
  case (snoc h hs)
  show ?case
  proof (cases "h = b")
    case True
    then show ?thesis using snoc.prems by simp
  next
    case False
    then have b: "b \<in> set hs" using snoc.prems(2) by simp
    have "z b \<le> z h" using snoc.prems(1) b by (simp add: sorted_append)
    then have "\<not> P h" using snoc.prems(4) False by fastforce
    moreover have "find P (rev hs) = Some b"
      using snoc.IH snoc.prems b by (simp add: sorted_append)
    ultimately show ?thesis by simp
  qed
qed

lemma find_over_map: "find P (map f xs) = map_option f (find (\<lambda>x. P (f x)) xs)"
  by (induction xs) simp_all

lemma traverse_first_leaf:
  "find (\<lambda>c. holds_point (bounds_of c) qx qy) cs = Some c \<Longrightarrow> children c = []
     \<Longrightarrow> traverse cs qx qy None = Some c"
  by (simp add: traverse_chain chain_def challenge_def)

lemma prepare_finish_sorted:
  assumes "keeps_child_order ext" and "prepare_finish ext inp w = (None, w')"
  shows "sorted (map (zIndex (pixi w')) (stage (pixi w')))"
proof -
  obtain r1 sc1 px1 where f: "configureFilters ext inp (scope w) (pixi w) = (r1, sc1, px1)"
    by (metis prod.collapse)
  obtain r2 sc2 px2 where t: "configureTransitions ext inp sc1 px1 = (r2, sc2, px2)"
    by (metis prod.collapse)
  let ?sc3 = "sc2\<lparr>elapsedTimeSeconds := 0, startTimeSeconds := performance_now ext\<rparr>"
  obtain r3 sc4 px4 where u: "ticker_update ext ?sc3 (sortChildren px2) = (r3, sc4, px4)"
    by (metis prod.collapse)
  have px: "pixi w' = px4"
    using assms(2) by (auto simp: prepare_finish_def f t u Let_def split: option.splits)
  have "stage px4 = stage (sortChildren px2)" "zIndex px4 = zIndex (sortChildren px2)"
    using assms(1) u unfolding keeps_child_order_def by (metis snd_conv)+
  then show ?thesis
    by (simp add: px sortChildren_def)
qed

lemma prepare_sorted:
  assumes "keeps_child_order ext" and "prepare ext store inp w = (None, w')"
  shows "sorted (map (zIndex (pixi w')) (stage (pixi w')))"
proof -
  let ?w1 = "prepare_clean inp w"
  obtain r sc2 where l: "load ext (scope ?w1) inp (getLocater (scope ?w1)) = (r, sc2)"
    by (metis prod.collapse)
  show ?thesis
  proof (cases r)
    case (Inl e)
    then show ?thesis using assms(2) by (simp add: prepare_def Let_def l)
  next
    case (Inr txs)
    obtain r3 w3 where c: "configureVisuals ext store inp (makeSprite txs (getLocater (scope ?w1))) makeGraphic
              (?w1\<lparr>scope := sc2\<rparr>) = (r3, w3)"
      by (metis prod.collapse)
    have "prepare_finish ext inp w3 = (None, w')"
      using assms(2) by (cases r3) (simp_all add: prepare_def Let_def l Inr c)
    then show ?thesis by (rule prepare_finish_sorted [OF assms(1)])
  qed
qed

lemma sorted_stage_hit:
  assumes "sorted (map (zIndex px) (stage px))"
    and "b \<in> set (stage px)" and "holds_point (getBounds px b) qx qy"
    and "\<forall>c \<in> set (stage px). holds_point (getBounds px c) qx qy \<and> c \<noteq> b
           \<longrightarrow> zIndex px c < zIndex px b"
    and "descendants px b = []"
  shows "findTopmostObjectAtPosition (container_item sc px) qx qy = Some (item_of px b)"
proof -
  let ?P = "\<lambda>h. holds_point (getBounds px h) qx qy"
  have "find ?P (rev (stage px)) = Some b"
    using assms(1-4) by (rule find_last_of_sorted [where z = "zIndex px"])
  then have "find (\<lambda>c. holds_point (bounds_of c) qx qy) (rev (map (item_of px) (stage px)))
               = Some (item_of px b)"
    by (simp add: rev_map find_over_map item_of_def)
  moreover have "children (item_of px b) = []"
    using assms(5) by (simp add: item_of_def)
  ultimately have "traverse (rev (map (item_of px) (stage px))) qx qy None = Some (item_of px b)"
    by (rule traverse_first_leaf)
  then show ?thesis
    by (simp add: findTopmostObjectAtPosition_def container_item_def)
qed

text \<open>
  C6, as stated, does not hold when a third sibling lies under the point. The sprites
  \<open>a\<close>, \<open>b\<close> and \<open>c\<close> (objects 2, 3 and 4) are reconciled with collaborators that give all
  three the same bounds and the z-indices 1, 5 and 9. The siblings \<open>a\<close> and \<open>b\<close> overlap,
  their z-indices differ and the point \<open>(5, 5)\<close> lies within both; the query posts the
  config with the identifier of \<open>c\<close>, not that of \<open>b\<close>.
\<close>

theorem third_sibling_counterexample:
  "fst (prepare stacking_externals (\<lambda>_. plain_config) snapshot_abc fresh_world) = None
   \<and> stage (pixi world_stacked) = [2, 3, 4]
   \<and> holds_point (getBounds (pixi world_stacked) 2) 5 5
   \<and> holds_point (getBounds (pixi world_stacked) 3) 5 5
   \<and> zIndex (pixi world_stacked) 2 = 1 \<and> zIndex (pixi world_stacked) 3 = 5
   \<and> map_of (identifierBy (lookup_Sprite (scope world_stacked))) 2 = Some ''a''
   \<and> map_of (identifierBy (lookup_Sprite (scope world_stacked))) 3 = Some ''b''
   \<and> fst (getHit (scope world_stacked) (pixi world_stacked) (\<lambda>_. plain_config) 5 5)
       = Inr (Some (Config (plain_config\<lparr>identifier := Some ''c''\<rparr>)))"
  by code_simp

text \<open>
  C6, amended. After a reconciliation that completes, a query at a point posts the config
  and the identifier of the child of the container whose z-index is the highest among the
  children whose bounds hold the point: of two overlapping siblings with different
  z-indices the higher one, provided no further sibling under the point reaches its
  z-index. The child is a sprite or graphic of the registry and has no children of its
  own, and the frame update that ends the reconciliation leaves the order of the children
  and their z-indices as the sort made them.
\<close>

theorem topmost_sibling_is_hit_after_prepare:
  assumes "keeps_child_order ext" and "prepare ext store inp w0 = (None, w1)"
    and "b \<in> set (stage (pixi w1))" and "holds_point (getBounds (pixi w1) b) qx qy"
    and "\<forall>c \<in> set (stage (pixi w1)). holds_point (getBounds (pixi w1) c) qx qy \<and> c \<noteq> b
           \<longrightarrow> zIndex (pixi w1) c < zIndex (pixi w1) b"
    and "descendants (pixi w1) b = []"
    and "(kind (pixi w1) b = PIXI_Sprite \<and> lk = lookup_Sprite (scope w1))
          \<or> (kind (pixi w1) b = PIXI_Graphics \<and> lk = lookup_Graphic (scope w1))"
    and "map_of (configBy lk) b = Some cref" and "map_of (identifierBy lk) b = Some ident"
  shows "fst (getHit (scope w1) (pixi w1) cfgs qx qy)
           = Inr (Some (Config ((cfgs cref)\<lparr>identifier := Some ident\<rparr>)))"
proof -
  have "sorted (map (zIndex (pixi w1)) (stage (pixi w1)))"
    using assms(1,2) by (rule prepare_sorted)
  then have top: "findTopmostObjectAtPosition (container_item (scope w1) (pixi w1)) qx qy
                    = Some (item_of (pixi w1) b)"
    using assms(3-6) by (rule sorted_stage_hit)
  show ?thesis
    using assms(7,8,9) by (auto simp: getHit_def top hit_reply_def item_of_def Let_def)
qed

theorem topmost_sibling_is_hit_after_prepare_witness:
  "keeps_child_order placing_externals
   \<and> prepare placing_externals (\<lambda>_. plain_config) snapshot_ab fresh_world = (None, world_overlap)
   \<and> stage (pixi world_overlap) = [3, 2]
   \<and> holds_point (getBounds (pixi world_overlap) 3) 7 7
   \<and> holds_point (getBounds (pixi world_overlap) 2) 7 7
   \<and> zIndex (pixi world_overlap) 3 < zIndex (pixi world_overlap) 2
   \<and> descendants (pixi world_overlap) 2 = []
   \<and> kind (pixi world_overlap) 2 = PIXI_Sprite
   \<and> map_of (configBy (lookup_Sprite (scope world_overlap))) 2 = Some 1
   \<and> map_of (identifierBy (lookup_Sprite (scope world_overlap))) 2 = Some ''a''
   \<and> fst (getHit (scope world_overlap) (pixi world_overlap) (\<lambda>_. plain_config) 7 7)
       = Inr (Some (Config (plain_config\<lparr>identifier := Some ''a''\<rparr>)))"
proof -
  have o: "keeps_child_order placing_externals"
    by (simp add: keeps_child_order_def placing_externals_def idle_externals_def)
  have "fst (prepare placing_externals (\<lambda>_. plain_config) snapshot_ab fresh_world) = None"
    by code_simp
  then have p: "prepare placing_externals (\<lambda>_. plain_config) snapshot_ab fresh_world = (None, world_overlap)"
    by (simp add: prod_eq_iff world_overlap_def)
  have s: "stage (pixi world_overlap) = [3, 2]" by code_simp
  have h: "holds_point (getBounds (pixi world_overlap) 3) 7 7"
    "holds_point (getBounds (pixi world_overlap) 2) 7 7"
    by code_simp+
  have z: "zIndex (pixi world_overlap) 3 < zIndex (pixi world_overlap) 2" by code_simp
  have d: "descendants (pixi world_overlap) 2 = []" by code_simp
  have k: "kind (pixi world_overlap) 2 = PIXI_Sprite" by code_simp
  have c: "map_of (configBy (lookup_Sprite (scope world_overlap))) 2 = Some 1"
    "map_of (identifierBy (lookup_Sprite (scope world_overlap))) 2 = Some ''a''"
    by code_simp+
  have "fst (getHit (scope world_overlap) (pixi world_overlap) (\<lambda>_. plain_config) 7 7)
       = Inr (Some (Config (plain_config\<lparr>identifier := Some ''a''\<rparr>)))"
    using topmost_sibling_is_hit_after_prepare
            [where ext = placing_externals and store = "\<lambda>_. plain_config" and inp = snapshot_ab
               and ?w0.0 = fresh_world and ?w1.0 = world_overlap and b = 2 and qx = 7 and qy = 7
               and lk = "lookup_Sprite (scope world_overlap)" and cref = 1 and ident = "''a''"
               and cfgs = "\<lambda>_. plain_config", OF o p]
          s h z d k c
    by simp
  then show ?thesis using o p s h z d k c by simp
qed

subsection \<open>Recycling and tags\<close>

lemma logs_as_makeSprite: "logs_as PIXI_Sprite (makeSprite txs locate)"
  by (simp add: logs_as_def makeSprite_def Let_def)

lemma logs_as_makeGraphic: "logs_as PIXI_Graphics makeGraphic"
  by (simp add: logs_as_def makeGraphic_def Let_def)

lemma obtained_registered:
  "map_of (byIdentifier lk) ident = Some h \<Longrightarrow> obtained factory ident lk px jn = (h, px, jn)"
  by (simp add: obtained_def)

lemma obtained_made:
  assumes "logs_as k factory" and "obtained factory ident lk px jn = (item, px1, jn1)"
  shows "made jn1 = made jn @ (if map_of (byIdentifier lk) ident = None then [(k, ident)] else [])"
proof (cases "map_of (byIdentifier lk) ident")
  case None
  then have "factory ident px jn = (item, px1, jn1)" using assms(2) by (simp add: obtained_def)
  then have "made jn1 = made (snd (snd (factory ident px jn)))" by simp
  then show ?thesis using assms(1) None by (simp add: logs_as_def)
next
  case (Some h)
  then show ?thesis using assms(2) by (simp add: obtained_def)
qed

lemma registered_map_of:
  "map_of (byIdentifier (registered config i cref item lk)) ident
     = (if ident = i then Some item else map_of (byIdentifier lk) ident)"
  by (simp add: registered_def update_conv')

lemma create_loop_other:
  "create_loop store factory sec (lk, cbi, px, jn) = (lk', cbi', px', jn')
     \<Longrightarrow> ident \<notin> fst ` set sec
     \<Longrightarrow> map_of (byIdentifier lk') ident = map_of (byIdentifier lk) ident"
proof (induction sec arbitrary: lk cbi px jn)
  case Nil
  then show ?case by simp
next
  case (Cons e sec)
  obtain i c where e: "e = (i, c)" by (cases e)
  obtain item px1 jn1 where ob: "obtained factory i lk px jn = (item, px1, jn1)"
    by (metis prod_cases3)
  let ?lk = "registered (store c) i c item lk"
  from Cons.prems(1) have r: "create_loop store factory sec
       (?lk, staged (store c) item cbi, px1\<lparr>filters := (filters px1)(item := Some [])\<rparr>, jn1) = (lk', cbi', px', jn')"
    by (simp add: e create_loop_Cons ob del: create_loop.simps)
  have "ident \<notin> fst ` set sec" "ident \<noteq> i" using Cons.prems(2) e by auto
  then show ?case using Cons.IH [OF r] by (simp add: registered_map_of)
qed

lemma create_loop_recycles:
  "create_loop store factory sec (lk, cbi, px, jn) = (lk', cbi', px', jn')
     \<Longrightarrow> map_of (byIdentifier lk) ident = Some h
     \<Longrightarrow> map_of (byIdentifier lk') ident = Some h"
proof (induction sec arbitrary: lk cbi px jn)
  case Nil
  then show ?case by simp
next
  case (Cons e sec)
  obtain i c where e: "e = (i, c)" by (cases e)
  obtain item px1 jn1 where ob: "obtained factory i lk px jn = (item, px1, jn1)"
    by (metis prod_cases3)
  let ?lk = "registered (store c) i c item lk"
  from Cons.prems(1) have r: "create_loop store factory sec
       (?lk, staged (store c) item cbi, px1\<lparr>filters := (filters px1)(item := Some [])\<rparr>, jn1) = (lk', cbi', px', jn')"
    by (simp add: e create_loop_Cons ob del: create_loop.simps)
  have "map_of (byIdentifier ?lk) ident = Some h"
  proof (cases "ident = i")
    case True
    then have "item = h" using ob obtained_registered [OF Cons.prems(2), of factory px jn] by simp
    then show ?thesis using True by (simp add: registered_map_of)
  next
    case False
    then show ?thesis using Cons.prems(2) by (simp add: registered_map_of)
  qed
  then show ?case by (rule Cons.IH [OF r])
qed

lemma create_loop_made:
  "logs_as k factory \<Longrightarrow> create_loop store factory sec (lk, cbi, px, jn) = (lk', cbi', px', jn')
     \<Longrightarrow> \<exists>ms. made jn' = made jn @ ms
            \<and> set ms \<subseteq> {k} \<times> (fst ` set sec - fst ` set (byIdentifier lk))"
proof (induction sec arbitrary: lk cbi px jn)
  case Nil
  then show ?case by simp
next
  case (Cons e sec)
  obtain i c where e: "e = (i, c)" by (cases e)
  obtain item px1 jn1 where ob: "obtained factory i lk px jn = (item, px1, jn1)"
    by (metis prod_cases3)
  let ?lk = "registered (store c) i c item lk"
  from Cons.prems(2) have r: "create_loop store factory sec
       (?lk, staged (store c) item cbi, px1\<lparr>filters := (filters px1)(item := Some [])\<rparr>, jn1) = (lk', cbi', px', jn')"
    by (simp add: e create_loop_Cons ob del: create_loop.simps)
  from Cons.IH [OF Cons.prems(1) r] obtain ms where
    ms: "made jn' = made jn1 @ ms" "set ms \<subseteq> {k} \<times> (fst ` set sec - fst ` set (byIdentifier ?lk))"
    by blast
  let ?m0 = "if map_of (byIdentifier lk) i = None then [(k, i)] else []"
  have m0: "made jn1 = made jn @ ?m0"
    by (rule obtained_made [OF Cons.prems(1) ob])
  have "set ?m0 \<subseteq> {k} \<times> (fst ` set (e # sec) - fst ` set (byIdentifier lk))"
    by (auto simp: e map_of_eq_None_iff)
  moreover have "set ms \<subseteq> {k} \<times> (fst ` set (e # sec) - fst ` set (byIdentifier lk))"
    using ms(2) by (auto simp: registered_keys)
  ultimately have "set (?m0 @ ms) \<subseteq> {k} \<times> (fst ` set (e # sec) - fst ` set (byIdentifier lk))"
    by simp
  moreover have "made jn' = made jn @ (?m0 @ ms)"
    using ms(1) m0 by simp
  ultimately show ?case by blast
qed

lemma bucket_setOrAppend:
  "bucket (lk\<lparr>byTag := setOrAppend (byTag lk) t' item\<rparr>) t
     = (if t = t' then bucket lk t @ [item] else bucket lk t)"
  by (simp add: bucket_def setOrAppend_def update_conv' split: option.split)

lemma bucket_registered:
  "t \<noteq> [] \<Longrightarrow> bucket (registered config i cref item lk) t
     = bucket lk t @ (if tag config = Some t then [item] else [])"
  by (cases "tag config")
     (auto simp: registered_def bucket_def setOrAppend_def update_conv' split: option.split)

lemma create_loop_buckets:
  "create_loop store factory sec (lk, cbi, px, jn) = (lk', cbi', px', jn')
     \<Longrightarrow> distinct (map fst sec) \<Longrightarrow> t \<noteq> []
     \<Longrightarrow> map Some (bucket lk' t)
           = map Some (bucket lk t) @ map (map_of (byIdentifier lk')) (tagged store sec t)"
proof (induction sec arbitrary: lk cbi px jn)
  case Nil
  then show ?case by (simp add: tagged_def)
next
  case (Cons e sec)
  obtain i c where e: "e = (i, c)" by (cases e)
  obtain item px1 jn1 where ob: "obtained factory i lk px jn = (item, px1, jn1)"
    by (metis prod_cases3)
  let ?lk = "registered (store c) i c item lk"
  from Cons.prems(1) have r: "create_loop store factory sec
       (?lk, staged (store c) item cbi, px1\<lparr>filters := (filters px1)(item := Some [])\<rparr>, jn1) = (lk', cbi', px', jn')"
    by (simp add: e create_loop_Cons ob del: create_loop.simps)
  have d: "distinct (map fst sec)" "i \<notin> fst ` set sec"
    using Cons.prems(2) e by auto
  have "map_of (byIdentifier lk') i = map_of (byIdentifier ?lk) i"
    by (rule create_loop_other [OF r d(2)])
  then have i: "map_of (byIdentifier lk') i = Some item"
    by (simp add: registered_map_of)
  have "map Some (bucket lk' t)
          = map Some (bucket ?lk t) @ map (map_of (byIdentifier lk')) (tagged store sec t)"
    by (rule Cons.IH [OF r d(1) Cons.prems(3)])
  then show ?case
    using i Cons.prems(3) by (simp add: bucket_registered tagged_def e)
qed

lemma registered_empty_tag:
  "map_of (byTag (registered config i cref item lk)) [] = map_of (byTag lk) []"
  by (cases "tag config")
     (auto simp: registered_def setOrAppend_def update_conv' split: option.split)

lemma create_loop_empty_tag:
  "create_loop store factory sec (lk, cbi, px, jn) = (lk', cbi', px', jn')
     \<Longrightarrow> map_of (byTag lk') [] = map_of (byTag lk) []"
proof (induction sec arbitrary: lk cbi px jn)
  case Nil
  then show ?case by simp
next
  case (Cons e sec)
  obtain i c where e: "e = (i, c)" by (cases e)
  obtain item px1 jn1 where ob: "obtained factory i lk px jn = (item, px1, jn1)"
    by (metis prod_cases3)
  let ?lk = "registered (store c) i c item lk"
  from Cons.prems(1) have r: "create_loop store factory sec
       (?lk, staged (store c) item cbi, px1\<lparr>filters := (filters px1)(item := Some [])\<rparr>, jn1) = (lk', cbi', px', jn')"
    by (simp add: e create_loop_Cons ob del: create_loop.simps)
  have "map_of (byTag lk') [] = map_of (byTag ?lk) []"
    by (rule Cons.IH [OF r])
  then show ?case by (simp add: registered_empty_tag)
qed

lemma frame_stepD:
  "frame_step f \<Longrightarrow> f sc px = (r, sc', px')
     \<Longrightarrow> lookup_Sprite sc' = lookup_Sprite sc \<and> lookup_Graphic sc' = lookup_Graphic sc"
  by (auto simp: frame_step_def dest: spec [where x = sc])
     (metis fst_conv snd_conv)+

lemma configureVisuals_registries:
  assumes g: "create store (Graphic inp) mG (lookup_Graphic (scope w), [], pixi w, journal w) = (lkG, cbi1, px1, jn1)"
    and s: "create store (Sprite inp) mS (lookup_Sprite (scope w), cbi1, px1, jn1) = (lkS, cbi2, px2, jn2)"
  shows "lookup_Graphic (scope (snd (configureVisuals ext store inp mS mG w))) = lkG
       \<and> lookup_Sprite (scope (snd (configureVisuals ext store inp mS mG w))) = lkS
       \<and> journal (snd (configureVisuals ext store inp mS mG w)) = jn2"
proof -
  obtain r1 sc2 where f: "formRelationships ((scope w)\<lparr>lookup_Graphic := lkG, lookup_Sprite := lkS\<rparr>) cbi2 = (r1, sc2)"
    by (metis prod.collapse)
  from formRelationships_loop_frame [OF f [unfolded formRelationships_def]]
  have sc2: "lookup_Sprite sc2 = lkS" "lookup_Graphic sc2 = lkG" by simp_all
  let ?w2 = "\<lparr>scope = sc2, pixi = px2, childrenByIdentifier = cbi2, journal = jn2\<rparr>"
  have "\<exists>px. snd (configureVisuals ext store inp mS mG w) = ?w2\<lparr>pixi := px\<rparr>"
    unfolding configureVisuals_steps [OF g s f] Let_def
    by (auto split: option.split prod.split)
  then show ?thesis using sc2 by auto
qed

lemma prepare_finish_frame:
  assumes "keeps_visual_registries ext"
  shows "lookup_Sprite (scope (snd (prepare_finish ext inp w))) = lookup_Sprite (scope w)
       \<and> lookup_Graphic (scope (snd (prepare_finish ext inp w))) = lookup_Graphic (scope w)
       \<and> journal (snd (prepare_finish ext inp w)) = journal w"
proof -
  obtain r1 sc1 px1 where a: "configureFilters ext inp (scope w) (pixi w) = (r1, sc1, px1)"
    by (metis prod_cases3)
  obtain r2 sc2 px2 where b: "configureTransitions ext inp sc1 px1 = (r2, sc2, px2)"
    by (metis prod_cases3)
  let ?sc3 = "sc2\<lparr>elapsedTimeSeconds := 0, startTimeSeconds := performance_now ext\<rparr>"
  obtain r4 sc4 px4 where c: "ticker_update ext ?sc3 (sortChildren px2) = (r4, sc4, px4)"
    by (metis prod_cases3)
  have fa: "frame_step (configureFilters ext inp)" and fb: "frame_step (configureTransitions ext inp)"
    and fc: "frame_step (ticker_update ext)"
    using assms by (simp_all add: keeps_visual_registries_def)
  note la = frame_stepD [OF fa a] and lb = frame_stepD [OF fb b] and lc = frame_stepD [OF fc c]
  show ?thesis
    using la lb lc
    by (cases r1; cases r2; cases r4) (simp_all add: prepare_finish_def a b c Let_def)
qed

lemma prepare_outcome:
  assumes "keeps_visual_registries ext"
  shows "(\<exists>e. prepare ext store inp w = (Some e, prepare_clean inp w))
       \<or> (\<exists>txs lkG cbi1 px1 jn1 lkS cbi2 px2 jn2 pxc.
             create store (Graphic inp) makeGraphic
               (lookup_Graphic (scope (prepare_clean inp w)), [], pxc, journal (prepare_clean inp w))
               = (lkG, cbi1, px1, jn1)
           \<and> create store (Sprite inp) (makeSprite txs (getLocater (scope (prepare_clean inp w))))
               (lookup_Sprite (scope (prepare_clean inp w)), cbi1, px1, jn1) = (lkS, cbi2, px2, jn2)
           \<and> lookup_Graphic (scope (snd (prepare ext store inp w))) = lkG
           \<and> lookup_Sprite (scope (snd (prepare ext store inp w))) = lkS
           \<and> journal (snd (prepare ext store inp w)) = jn2)"
proof -
  let ?w1 = "prepare_clean inp w"
  let ?loc = "getLocater (scope ?w1)"
  obtain r sc2 where l: "load ext (scope ?w1) inp ?loc = (r, sc2)"
    by (metis prod.collapse)
  show ?thesis
  proof (cases r)
    case (Inl e)
    then have "sc2 = scope ?w1" using load_failure_scope [of ext "scope ?w1" inp ?loc e] l by simp
    then have "prepare ext store inp w = (Some e, ?w1)"
      using Inl l by (simp add: prepare_def Let_def)
    then show ?thesis by blast
  next
    case (Inr txs)
    let ?w2 = "?w1\<lparr>scope := sc2\<rparr>"
    from load_success_scope [OF l [unfolded Inr]]
    have same: "lookup_Sprite sc2 = lookup_Sprite (scope ?w1)" "lookup_Graphic sc2 = lookup_Graphic (scope ?w1)"
      by auto
    obtain lkG cbi1 px1 jn1 where g: "create store (Graphic inp) makeGraphic
        (lookup_Graphic (scope ?w2), [], pixi ?w2, journal ?w2) = (lkG, cbi1, px1, jn1)"
      by (metis prod_cases4)
    obtain lkS cbi2 px2 jn2 where s: "create store (Sprite inp) (makeSprite txs ?loc)
        (lookup_Sprite (scope ?w2), cbi1, px1, jn1) = (lkS, cbi2, px2, jn2)"
      by (metis prod_cases4)
    let ?cv = "configureVisuals ext store inp (makeSprite txs ?loc) makeGraphic ?w2"
    note cv = configureVisuals_registries [OF g s, of ext]
    have p: "prepare ext store inp w
               = (case ?cv of (Some e, w3) \<Rightarrow> (Some e, w3) | (None, w3) \<Rightarrow> prepare_finish ext inp w3)"
      using Inr l by (simp add: prepare_def Let_def)
    have "lookup_Graphic (scope (snd (prepare ext store inp w))) = lkG
        \<and> lookup_Sprite (scope (snd (prepare ext store inp w))) = lkS
        \<and> journal (snd (prepare ext store inp w)) = jn2"
    proof (cases ?cv)
      case (Pair r0 w3)
      show ?thesis
      proof (cases r0)
        case None
        then show ?thesis
          using cv Pair prepare_finish_frame [OF assms, of inp w3] by (simp add: p)
      next
        case (Some e)
        then show ?thesis using cv Pair by (simp add: p)
      qed
    qed
    moreover have "create store (Graphic inp) makeGraphic
        (lookup_Graphic (scope ?w1), [], pixi ?w1, journal ?w1) = (lkG, cbi1, px1, jn1)"
      using g same by simp
    moreover have "create store (Sprite inp) (makeSprite txs ?loc)
        (lookup_Sprite (scope ?w1), cbi1, px1, jn1) = (lkS, cbi2, px2, jn2)"
      using s same by simp
    ultimately show ?thesis by blast
  qed
qed

lemma map_of_filter_key:
  "P ident \<Longrightarrow> map_of (filter (\<lambda>(i, _). P i) es) ident = map_of es ident"
  by (induction es) auto

lemma map_of_kept_entries:
  "ident \<in> fst ` set (entries current) \<Longrightarrow>
     map_of (kept_entries current lk) ident = map_of (byIdentifier lk) ident"
  by (cases current) (simp_all add: kept_entries_def entries_def map_of_filter_key)

lemma prepare_clean_registry_of:
  "byIdentifier (registry_of k (scope (prepare_clean inp w)))
     = kept_entries (section_of k inp) (registry_of k (scope w))"
  "byTag (registry_of k (scope (prepare_clean inp w)))
     = (case section_of k inp of None \<Rightarrow> byTag (registry_of k (scope w)) | Some _ \<Rightarrow> [])"
  by (cases k; simp add: prepare_clean_lookups clean_byIdentifier)
     (cases k; simp add: prepare_clean_lookups clean_byTag split: option.split)

lemma prepare_visual_outcome:
  assumes "keeps_visual_registries ext"
  obtains (load_failed) e where "prepare ext store inp w = (Some e, prepare_clean inp w)"
  | (configured) factory cbi px jn cbi' px' jn' ms ms' where
      "logs_as (class_of k) factory"
      "create_loop store factory (entries (section_of k inp))
         (registry_of k (scope (prepare_clean inp w)), cbi, px, jn)
         = (registry_of k (scope (snd (prepare ext store inp w))), cbi', px', jn')"
      "made jn = made (journal w) @ ms"
      "made (journal (snd (prepare ext store inp w))) = made jn' @ ms'"
      "\<forall>ident. (class_of k, ident) \<notin> set ms \<and> (class_of k, ident) \<notin> set ms'"
proof -
  let ?w1 = "prepare_clean inp w"
  let ?w' = "snd (prepare ext store inp w)"
  from prepare_outcome [OF assms, of store inp w]
  show thesis
  proof
    assume "\<exists>e. prepare ext store inp w = (Some e, ?w1)"
    then obtain e where "prepare ext store inp w = (Some e, ?w1)" ..
    then show thesis by (rule load_failed)
  next
    assume "\<exists>txs lkG cbi1 px1 jn1 lkS cbi2 px2 jn2 pxc.
             create store (Graphic inp) makeGraphic
               (lookup_Graphic (scope ?w1), [], pxc, journal ?w1) = (lkG, cbi1, px1, jn1)
           \<and> create store (Sprite inp) (makeSprite txs (getLocater (scope ?w1)))
               (lookup_Sprite (scope ?w1), cbi1, px1, jn1) = (lkS, cbi2, px2, jn2)
           \<and> lookup_Graphic (scope ?w') = lkG \<and> lookup_Sprite (scope ?w') = lkS
           \<and> journal ?w' = jn2"
    then obtain txs lkG cbi1 px1 jn1 lkS cbi2 px2 jn2 pxc where
      g: "create_loop store makeGraphic (entries (Graphic inp))
            (lookup_Graphic (scope ?w1), [], pxc, journal ?w1) = (lkG, cbi1, px1, jn1)"
      and s: "create_loop store (makeSprite txs (getLocater (scope ?w1))) (entries (Sprite inp))
            (lookup_Sprite (scope ?w1), cbi1, px1, jn1) = (lkS, cbi2, px2, jn2)"
      and r: "lookup_Graphic (scope ?w') = lkG" "lookup_Sprite (scope ?w') = lkS" "journal ?w' = jn2"
      unfolding create_entries by (elim exE conjE)
    from create_loop_made [OF logs_as_makeGraphic g] obtain mg where
      mg: "made jn1 = made (journal ?w1) @ mg" "set mg \<subseteq> {PIXI_Graphics} \<times> UNIV" by blast
    from create_loop_made [OF logs_as_makeSprite s] obtain ms where
      ms: "made jn2 = made jn1 @ ms" "set ms \<subseteq> {PIXI_Sprite} \<times> UNIV" by blast
    have j1: "made (journal ?w1) = made (journal w)" by (rule prepare_clean_journal(2))
    show thesis
    proof (cases k)
      case Sprite_key
      have 1: "logs_as (class_of k) (makeSprite txs (getLocater (scope ?w1)))"
        using Sprite_key by (simp add: logs_as_makeSprite)
      have 2: "create_loop store (makeSprite txs (getLocater (scope ?w1))) (entries (section_of k inp))
                (registry_of k (scope ?w1), cbi1, px1, jn1) = (registry_of k (scope ?w'), cbi2, px2, jn2)"
        using Sprite_key s r by simp
      have 3: "made jn1 = made (journal w) @ mg" and 4: "made (journal ?w') = made jn2 @ []"
        using mg j1 r by simp_all
      have 5: "\<forall>ident. (class_of k, ident) \<notin> set mg \<and> (class_of k, ident) \<notin> set []"
        using mg(2) Sprite_key by auto
      show thesis by (rule configured [OF 1 2 3 4 5])
    next
      case Graphic_key
      have 1: "logs_as (class_of k) makeGraphic"
        using Graphic_key by (simp add: logs_as_makeGraphic)
      have 2: "create_loop store makeGraphic (entries (section_of k inp))
                (registry_of k (scope ?w1), [], pxc, journal ?w1) = (registry_of k (scope ?w'), cbi1, px1, jn1)"
        using Graphic_key g r by simp
      have 3: "made (journal ?w1) = made (journal w) @ []" and 4: "made (journal ?w') = made jn1 @ ms"
        using ms j1 r by simp_all
      have 5: "\<forall>ident. (class_of k, ident) \<notin> set [] \<and> (class_of k, ident) \<notin> set ms"
        using ms(2) Graphic_key by auto
      show thesis by (rule configured [OF 1 2 3 4 5])
    qed
  qed
qed

lemma keeps_idle: "keeps_visual_registries idle_externals"
  by (simp add: keeps_visual_registries_def frame_step_def idle_externals_def)

lemma recycled_one_identifier:
  assumes "keeps_visual_registries ext1" and "keeps_visual_registries ext2"
    and "prepare ext1 store1 in1 w0 = (None, w1)"
    and "prepare ext2 store2 in2 w1 = (r2, w2)"
    and "ident \<in> fst ` set (entries (section_of k in1))"
    and "ident \<in> fst ` set (entries (section_of k in2))"
  shows "\<exists>h. map_of (byIdentifier (registry_of k (scope w1))) ident = Some h
           \<and> map_of (byIdentifier (registry_of k (scope w2))) ident = Some h
           \<and> (\<exists>ms. made (journal w2) = made (journal w1) @ ms \<and> (class_of k, ident) \<notin> set ms)"
proof -
  have w1: "snd (prepare ext1 store1 in1 w0) = w1" and w2: "snd (prepare ext2 store2 in2 w1) = w2"
    using assms(3,4) by simp_all
  have "ident \<in> fst ` set (byIdentifier (registry_of k (scope w1)))"
  proof (rule prepare_visual_outcome [OF assms(1), where store = store1 and inp = in1 and w = w0 and k = k])
    fix e assume "prepare ext1 store1 in1 w0 = (Some e, prepare_clean in1 w0)"
    then show ?thesis using assms(3) by simp
  next
    fix factory cbi px jn cbi' px' jn'
    assume "create_loop store1 factory (entries (section_of k in1))
         (registry_of k (scope (prepare_clean in1 w0)), cbi, px, jn)
         = (registry_of k (scope (snd (prepare ext1 store1 in1 w0))), cbi', px', jn')"
    from create_loop_keys [OF this] show ?thesis using assms(5) w1 by simp
  qed
  then obtain h where h: "map_of (byIdentifier (registry_of k (scope w1))) ident = Some h"
    by (metis map_of_eq_None_iff not_Some_eq)
  have kept: "map_of (byIdentifier (registry_of k (scope (prepare_clean in2 w1)))) ident = Some h"
    using h assms(6) by (simp add: prepare_clean_registry_of map_of_kept_entries)
  have "map_of (byIdentifier (registry_of k (scope w2))) ident = Some h
           \<and> (\<exists>ms. made (journal w2) = made (journal w1) @ ms \<and> (class_of k, ident) \<notin> set ms)"
  proof (rule prepare_visual_outcome [OF assms(2), where store = store2 and inp = in2 and w = w1 and k = k])
    fix e assume "prepare ext2 store2 in2 w1 = (Some e, prepare_clean in2 w1)"
    then have "w2 = prepare_clean in2 w1" using assms(4) by simp
    then show ?thesis using kept by (simp add: prepare_clean_journal(2))
  next
    fix factory cbi px jn cbi' px' jn' ms ms'
    assume l: "logs_as (class_of k) factory"
      and c: "create_loop store2 factory (entries (section_of k in2))
         (registry_of k (scope (prepare_clean in2 w1)), cbi, px, jn)
         = (registry_of k (scope (snd (prepare ext2 store2 in2 w1))), cbi', px', jn')"
      and m: "made jn = made (journal w1) @ ms"
         "made (journal (snd (prepare ext2 store2 in2 w1))) = made jn' @ ms'"
         "\<forall>ident. (class_of k, ident) \<notin> set ms \<and> (class_of k, ident) \<notin> set ms'"
    from create_loop_recycles [OF c kept]
    have a: "map_of (byIdentifier (registry_of k (scope w2))) ident = Some h"
      using w2 by simp
    from create_loop_made [OF l c] obtain mc where
      mc: "made jn' = made jn @ mc"
          "set mc \<subseteq> {class_of k} \<times> (fst ` set (entries (section_of k in2))
                      - fst ` set (byIdentifier (registry_of k (scope (prepare_clean in2 w1)))))"
      by blast
    have "ident \<in> fst ` set (byIdentifier (registry_of k (scope (prepare_clean in2 w1))))"
      using kept by (metis map_of_eq_None_iff option.distinct(1))
    then have "(class_of k, ident) \<notin> set mc" using mc(2) by auto
    then have "(class_of k, ident) \<notin> set (ms @ mc @ ms')" using m(3) by simp
    moreover have "made (journal w2) = made (journal w1) @ (ms @ mc @ ms')"
      using m(1,2) mc(1) w2 by simp
    ultimately show ?thesis using a by blast
  qed
  then show ?thesis using h by blast
qed

lemma kept_entries_all:
  "fst ` set (byIdentifier lk) \<subseteq> fst ` set (entries current) \<or> current = None
     \<Longrightarrow> kept_entries current lk = byIdentifier lk"
proof (cases current)
  case None
  then show ?thesis by (simp add: kept_entries_def)
next
  case (Some sec)
  assume "fst ` set (byIdentifier lk) \<subseteq> fst ` set (entries current) \<or> current = None"
  then have "\<forall>e \<in> set (byIdentifier lk). fst e \<in> fst ` set sec"
    using Some by (auto simp: entries_def)
  then have "filter (\<lambda>(i, _). i \<in> fst ` set sec) (byIdentifier lk) = byIdentifier lk"
    by (intro filter_True) (auto simp: case_prod_unfold)
  then show ?thesis using Some by (simp add: kept_entries_def)
qed

lemma kept_entries_subset:
  "current \<noteq> None \<Longrightarrow> fst ` set (kept_entries current lk) \<subseteq> fst ` set (entries current)"
  by (cases current) (force simp: kept_entries_def entries_def)+

lemma registered_keys_after_pass:
  assumes "keeps_visual_registries ext" and "prepare ext store inp w = (None, w')"
  shows "fst ` set (byIdentifier (registry_of k (scope w'))) \<subseteq> fst ` set (entries (section_of k inp))
         \<or> section_of k inp = None"
proof (rule prepare_visual_outcome [OF assms(1), where store = store and inp = inp and w = w and k = k])
  fix e assume "prepare ext store inp w = (Some e, prepare_clean inp w)"
  then show ?thesis using assms(2) by simp
next
  fix factory cbi px jn cbi' px' jn'
  assume "create_loop store factory (entries (section_of k inp))
         (registry_of k (scope (prepare_clean inp w)), cbi, px, jn)
         = (registry_of k (scope (snd (prepare ext store inp w))), cbi', px', jn')"
  from create_loop_keys [OF this]
  have "fst ` set (byIdentifier (registry_of k (scope w')))
          = fst ` set (kept_entries (section_of k inp) (registry_of k (scope w)))
            \<union> fst ` set (entries (section_of k inp))"
    using assms(2) by (simp add: prepare_clean_registry_of)
  then show ?thesis
    using kept_entries_subset [of "section_of k inp" "registry_of k (scope w)"] by auto
qed

lemma identical_snapshot_idempotent:
  assumes "keeps_visual_registries ext1" and "keeps_visual_registries ext2"
    and "prepare ext1 store1 inp w0 = (None, w1)"
    and "prepare ext2 store2 inp w1 = (r2, w2)"
  shows "map_of (byIdentifier (registry_of k (scope w2))) = map_of (byIdentifier (registry_of k (scope w1)))
         \<and> (\<exists>ms. made (journal w2) = made (journal w1) @ ms \<and> (\<forall>i. (class_of k, i) \<notin> set ms))"
proof -
  let ?sec = "entries (section_of k inp)"
  have w2: "snd (prepare ext2 store2 inp w1) = w2" using assms(4) by simp
  note keys = registered_keys_after_pass [OF assms(1,3), of k]
  have clean2: "byIdentifier (registry_of k (scope (prepare_clean inp w1)))
                  = byIdentifier (registry_of k (scope w1))"
    using keys by (simp add: prepare_clean_registry_of kept_entries_all)
  show ?thesis
  proof (rule prepare_visual_outcome [OF assms(2), where store = store2 and inp = inp and w = w1 and k = k])
    fix e assume "prepare ext2 store2 inp w1 = (Some e, prepare_clean inp w1)"
    then have "w2 = prepare_clean inp w1" using assms(4) by simp
    then show ?thesis using clean2 by (simp add: prepare_clean_journal(2))
  next
    fix factory cbi px jn cbi' px' jn' ms ms'
    assume l: "logs_as (class_of k) factory"
      and c: "create_loop store2 factory ?sec
         (registry_of k (scope (prepare_clean inp w1)), cbi, px, jn)
         = (registry_of k (scope (snd (prepare ext2 store2 inp w1))), cbi', px', jn')"
      and m: "made jn = made (journal w1) @ ms"
         "made (journal (snd (prepare ext2 store2 inp w1))) = made jn' @ ms'"
         "\<forall>ident. (class_of k, ident) \<notin> set ms \<and> (class_of k, ident) \<notin> set ms'"
    have sub: "fst ` set ?sec \<subseteq> fst ` set (byIdentifier (registry_of k (scope (prepare_clean inp w1))))"
    proof -
      have "fst ` set ?sec \<subseteq> fst ` set (byIdentifier (registry_of k (scope w1)))"
      proof (rule prepare_visual_outcome [OF assms(1), where store = store1 and inp = inp and w = w0 and k = k])
        fix e assume "prepare ext1 store1 inp w0 = (Some e, prepare_clean inp w0)"
        then show ?thesis using assms(3) by simp
      next
        fix factory cbi px jn cbi' px' jn'
        assume "create_loop store1 factory ?sec
           (registry_of k (scope (prepare_clean inp w0)), cbi, px, jn)
           = (registry_of k (scope (snd (prepare ext1 store1 inp w0))), cbi', px', jn')"
        from create_loop_keys [OF this] show ?thesis using assms(3) by simp
      qed
      then show ?thesis by (simp add: clean2)
    qed
    have "map_of (byIdentifier (registry_of k (scope w2))) i
            = map_of (byIdentifier (registry_of k (scope w1))) i" for i
    proof (cases "map_of (byIdentifier (registry_of k (scope (prepare_clean inp w1)))) i")
      case None
      then have "i \<notin> fst ` set ?sec" using sub by (auto simp: map_of_eq_None_iff)
      from create_loop_other [OF c this] show ?thesis using w2 by (simp add: clean2)
    next
      case (Some h)
      from create_loop_recycles [OF c Some] show ?thesis using Some w2 by (simp add: clean2)
    qed
    then have a: "map_of (byIdentifier (registry_of k (scope w2)))
                    = map_of (byIdentifier (registry_of k (scope w1)))"
      by (rule ext)
    from create_loop_made [OF l c] obtain mc where
      mc: "made jn' = made jn @ mc"
          "set mc \<subseteq> {class_of k} \<times> (fst ` set ?sec
                      - fst ` set (byIdentifier (registry_of k (scope (prepare_clean inp w1)))))"
      by blast
    have "mc = []" using mc(2) sub by (cases mc) auto
    then have "made (journal w2) = made (journal w1) @ (ms @ ms')"
      using m(1,2) mc(1) w2 by simp
    moreover have "\<forall>i. (class_of k, i) \<notin> set (ms @ ms')" using m(3) by simp
    ultimately show ?thesis using a by blast
  qed
qed

text \<open>
  C7. Let a first reconciliation complete and a second one follow it, the collaborators
  leaving the two visual registries alone. Every identifier that the sections of a visual
  kind (Sprite or Graphic) hold in both snapshots maps to one and the same object after
  the first and after the second pass, and the log of the second pass has no factory call
  of that kind for it. If the second snapshot is the first one again, the identifier view
  of the kind is the same map after both passes and the second pass calls the factory of
  the kind for no identifier at all.
\<close>

theorem recycled_identifier_keeps_its_object:
  assumes "keeps_visual_registries ext1" and "keeps_visual_registries ext2"
    and "prepare ext1 store1 in1 w0 = (None, w1)"
    and "prepare ext2 store2 in2 w1 = (r2, w2)"
  shows "(\<forall>ident \<in> fst ` set (entries (section_of k in1)) \<inter> fst ` set (entries (section_of k in2)).
            \<exists>h. map_of (byIdentifier (registry_of k (scope w1))) ident = Some h
              \<and> map_of (byIdentifier (registry_of k (scope w2))) ident = Some h
              \<and> (\<exists>ms. made (journal w2) = made (journal w1) @ ms \<and> (class_of k, ident) \<notin> set ms))
       \<and> (in2 = in1 \<longrightarrow>
            map_of (byIdentifier (registry_of k (scope w2)))
              = map_of (byIdentifier (registry_of k (scope w1)))
            \<and> (\<exists>ms. made (journal w2) = made (journal w1) @ ms \<and> (\<forall>i. (class_of k, i) \<notin> set ms)))"
proof (intro conjI ballI impI)
  fix ident
  assume "ident \<in> fst ` set (entries (section_of k in1)) \<inter> fst ` set (entries (section_of k in2))"
  then have "ident \<in> fst ` set (entries (section_of k in1))" "ident \<in> fst ` set (entries (section_of k in2))"
    by simp_all
  then show "\<exists>h. map_of (byIdentifier (registry_of k (scope w1))) ident = Some h
              \<and> map_of (byIdentifier (registry_of k (scope w2))) ident = Some h
              \<and> (\<exists>ms. made (journal w2) = made (journal w1) @ ms \<and> (class_of k, ident) \<notin> set ms)"
    by (rule recycled_one_identifier [OF assms])
next
  assume "in2 = in1"
  then have p: "prepare ext2 store2 in1 w1 = (r2, w2)" using assms(4) by simp
  from identical_snapshot_idempotent [OF assms(1,2,3) p, of k]
  show "map_of (byIdentifier (registry_of k (scope w2))) = map_of (byIdentifier (registry_of k (scope w1)))"
    and "\<exists>ms. made (journal w2) = made (journal w1) @ ms \<and> (\<forall>i. (class_of k, i) \<notin> set ms)"
    by simp_all
qed

theorem recycled_identifier_keeps_its_object_witness:
  "keeps_visual_registries idle_externals
   \<and> fst (prepare idle_externals (\<lambda>_. plain_config) snapshot_ab fresh_world) = None
   \<and> ''a'' \<in> fst ` set (entries (section_of Sprite_key snapshot_ab))
              \<inter> fst ` set (entries (section_of Sprite_key snapshot_a))
   \<and> map_of (byIdentifier (lookup_Sprite (scope world_ab))) ''a'' = Some 2
   \<and> map_of (byIdentifier (lookup_Sprite (scope (snd (prepare idle_externals (\<lambda>_. plain_config) snapshot_a world_ab))))) ''a'' = Some 2
   \<and> made (journal (snd (prepare idle_externals (\<lambda>_. plain_config) snapshot_a world_ab))) = made (journal world_ab)
   \<and> byIdentifier (lookup_Sprite (scope (snd (prepare idle_externals (\<lambda>_. plain_config) snapshot_ab world_ab))))
       = byIdentifier (lookup_Sprite (scope world_ab))
   \<and> made (journal (snd (prepare idle_externals (\<lambda>_. plain_config) snapshot_ab world_ab))) = made (journal world_ab)"
proof -
  have f: "fst (prepare idle_externals (\<lambda>_. plain_config) snapshot_ab fresh_world) = None"
    by code_simp
  then have p1: "prepare idle_externals (\<lambda>_. plain_config) snapshot_ab fresh_world = (None, world_ab)"
    by (simp add: world_ab_def prod_eq_iff)
  have p2: "prepare idle_externals (\<lambda>_. plain_config) snapshot_a world_ab
              = (fst (prepare idle_externals (\<lambda>_. plain_config) snapshot_a world_ab),
                 snd (prepare idle_externals (\<lambda>_. plain_config) snapshot_a world_ab))"
    by simp
  have i: "''a'' \<in> fst ` set (entries (section_of Sprite_key snapshot_ab))
              \<inter> fst ` set (entries (section_of Sprite_key snapshot_a))"
    by code_simp
  have a: "map_of (byIdentifier (lookup_Sprite (scope world_ab))) ''a'' = Some 2"
    "map_of (byIdentifier (lookup_Sprite (scope (snd (prepare idle_externals (\<lambda>_. plain_config) snapshot_a world_ab))))) ''a'' = Some 2"
    "made (journal (snd (prepare idle_externals (\<lambda>_. plain_config) snapshot_a world_ab))) = made (journal world_ab)"
    "byIdentifier (lookup_Sprite (scope (snd (prepare idle_externals (\<lambda>_. plain_config) snapshot_ab world_ab))))
       = byIdentifier (lookup_Sprite (scope world_ab))"
    "made (journal (snd (prepare idle_externals (\<lambda>_. plain_config) snapshot_ab world_ab))) = made (journal world_ab)"
    by code_simp+
  show ?thesis
    using recycled_identifier_keeps_its_object [OF keeps_idle keeps_idle p1 p2, of Sprite_key]
      keeps_idle f i a
    by simp
qed

text \<open>
  C8, as stated, does not hold for the empty tag: \<open>create\<close> registers a tag only when
  \<open>config.tag\<close> is truthy. The config of sprite \<open>a\<close> declares the tag \<open>""\<close>; after the
  reconciliation \<open>a\<close> is registered, and the tag view has no bucket for \<open>""\<close>.
\<close>

theorem empty_tag_counterexample:
  "fst (prepare idle_externals empty_tag_store snapshot_a fresh_world) = None
   \<and> tag (empty_tag_store 1) = Some []
   \<and> map_of (byIdentifier (lookup_Sprite (scope (snd (prepare idle_externals empty_tag_store snapshot_a fresh_world))))) ''a'' = Some 2
   \<and> map_of (byTag (lookup_Sprite (scope (snd (prepare idle_externals empty_tag_store snapshot_a fresh_world))))) [] = None
   \<and> byTag (lookup_Sprite (scope (snd (prepare idle_externals empty_tag_store snapshot_a fresh_world)))) = []"
  by code_simp

text \<open>
  C8, amended. After a reconciliation that completes, for a visual kind whose section is
  present, the bucket of every non-empty tag holds exactly the objects registered under
  the identifiers whose config in this snapshot declares the tag, in the section's order;
  nothing an earlier snapshot registered under the tag remains. The empty string has no
  bucket, whatever the configs declare.
\<close>

theorem tag_buckets_follow_latest_snapshot:
  assumes "keeps_visual_registries ext"
    and "prepare ext store inp w = (None, w')"
    and "section_of k inp = Some sec" and "distinct (map fst sec)"
  shows "(t \<noteq> [] \<longrightarrow> map Some (bucket (registry_of k (scope w')) t)
           = map (map_of (byIdentifier (registry_of k (scope w')))) (tagged store sec t))
       \<and> map_of (byTag (registry_of k (scope w'))) [] = None"
proof (rule prepare_visual_outcome [OF assms(1), where store = store and inp = inp and w = w and k = k])
  fix e assume "prepare ext store inp w = (Some e, prepare_clean inp w)"
  then show ?thesis using assms(2) by simp
next
  fix factory cbi px jn cbi' px' jn'
  assume "create_loop store factory (entries (section_of k inp))
         (registry_of k (scope (prepare_clean inp w)), cbi, px, jn)
         = (registry_of k (scope (snd (prepare ext store inp w))), cbi', px', jn')"
  then have c: "create_loop store factory sec
         (registry_of k (scope (prepare_clean inp w)), cbi, px, jn)
         = (registry_of k (scope w'), cbi', px', jn')"
    using assms(2,3) by (simp add: entries_def)
  have e: "byTag (registry_of k (scope (prepare_clean inp w))) = []"
    using assms(3) by (simp add: prepare_clean_registry_of)
  then have "bucket (registry_of k (scope (prepare_clean inp w))) t = []"
    by (simp add: bucket_def)
  then have "t \<noteq> [] \<longrightarrow> map Some (bucket (registry_of k (scope w')) t)
           = map (map_of (byIdentifier (registry_of k (scope w')))) (tagged store sec t)"
    using create_loop_buckets [OF c assms(4)] by simp
  moreover have "map_of (byTag (registry_of k (scope w'))) [] = None"
    using create_loop_empty_tag [OF c] e by simp
  ultimately show ?thesis by simp
qed

theorem tag_buckets_follow_latest_snapshot_witness:
  "keeps_visual_registries idle_externals
   \<and> bucket (lookup_Sprite (scope world_tagged)) ''t'' = [2, 3]
   \<and> fst (prepare idle_externals b_tagged_store snapshot_ab world_tagged) = None
   \<and> section_of Sprite_key snapshot_ab = Some [(''a'', 1), (''b'', 2)]
   \<and> distinct (map fst [(''a'', 1 :: config_ref), (''b'', 2)])
   \<and> tagged b_tagged_store [(''a'', 1), (''b'', 2)] ''t'' = [''b'']
   \<and> map_of (byIdentifier (lookup_Sprite (scope (snd (prepare idle_externals b_tagged_store snapshot_ab world_tagged))))) ''b'' = Some 3
   \<and> bucket (lookup_Sprite (scope (snd (prepare idle_externals b_tagged_store snapshot_ab world_tagged)))) ''t'' = [3]
   \<and> map_of (byTag (lookup_Sprite (scope (snd (prepare idle_externals b_tagged_store snapshot_ab world_tagged))))) [] = None"
proof -
  have f: "fst (prepare idle_externals b_tagged_store snapshot_ab world_tagged) = None"
    by code_simp
  then have p: "prepare idle_externals b_tagged_store snapshot_ab world_tagged
                  = (None, snd (prepare idle_externals b_tagged_store snapshot_ab world_tagged))"
    by (simp add: prod_eq_iff)
  have s: "section_of Sprite_key snapshot_ab = Some [(''a'', 1), (''b'', 2)]"
    by code_simp
  have d: "distinct (map fst [(''a'', 1 :: config_ref), (''b'', 2)])"
    by simp
  have t: "''t'' \<noteq> []" by simp
  have b: "bucket (lookup_Sprite (scope world_tagged)) ''t'' = [2, 3]"
    "tagged b_tagged_store [(''a'', 1), (''b'', 2)] ''t'' = [''b'']"
    "map_of (byIdentifier (lookup_Sprite (scope (snd (prepare idle_externals b_tagged_store snapshot_ab world_tagged))))) ''b'' = Some 3"
    by code_simp+
  from tag_buckets_follow_latest_snapshot [OF keeps_idle p s d, of "''t''"]
  have "bucket (lookup_Sprite (scope (snd (prepare idle_externals b_tagged_store snapshot_ab world_tagged)))) ''t'' = [3]
      \<and> map_of (byTag (lookup_Sprite (scope (snd (prepare idle_externals b_tagged_store snapshot_ab world_tagged))))) [] = None"
    using b by (simp add: map_eq_Cons_conv)
  then show ?thesis using keeps_idle f s d b by simp
qed

subsection \<open>Undefined sections\<close>

lemma create_loop_destroyed:
  assumes "\<And>ident px jn. destroyed (snd (snd (factory ident px jn))) = destroyed jn"
  shows "create_loop store factory sec (lk, cbi, px, jn) = (lk', cbi', px', jn')
           \<Longrightarrow> destroyed jn' = destroyed jn"
proof (induction sec arbitrary: lk cbi px jn)
  case Nil
  then show ?case by simp
next
  case (Cons e sec)
  obtain i c where e: "e = (i, c)" by (cases e)
  obtain item px1 jn1 where ob: "obtained factory i lk px jn = (item, px1, jn1)"
    by (metis prod_cases3)
  from Cons.prems have r: "create_loop store factory sec
       (registered (store c) i c item lk, staged (store c) item cbi,
        px1\<lparr>filters := (filters px1)(item := Some [])\<rparr>, jn1) = (lk', cbi', px', jn')"
    by (simp add: e create_loop_Cons ob del: create_loop.simps)
  have "destroyed jn1 = destroyed jn"
  proof (cases "map_of (byIdentifier lk) i")
    case None
    then have "jn1 = snd (snd (factory i px jn))" using ob by (simp add: obtained_def)
    then show ?thesis by (simp add: assms)
  next
    case (Some h)
    then show ?thesis using ob by (simp add: obtained_def)
  qed
  then show ?case using Cons.IH [OF r] by simp
qed

lemma prepare_finish_journal: "journal (snd (prepare_finish ext inp w)) = journal w"
proof -
  obtain r1 sc1 px1 where a: "configureFilters ext inp (scope w) (pixi w) = (r1, sc1, px1)"
    by (metis prod_cases3)
  obtain r2 sc2 px2 where b: "configureTransitions ext inp sc1 px1 = (r2, sc2, px2)"
    by (metis prod_cases3)
  obtain r4 sc4 px4 where c: "ticker_update ext
       (sc2\<lparr>elapsedTimeSeconds := 0, startTimeSeconds := performance_now ext\<rparr>) (sortChildren px2)
         = (r4, sc4, px4)"
    by (metis prod_cases3)
  show ?thesis
    by (cases r1; cases r2; cases r4) (simp_all add: prepare_finish_def a b c Let_def)
qed

lemma prepare_destroyed:
  "destroyed (journal (snd (prepare ext store inp w))) = destroyed (journal (prepare_clean inp w))"
proof -
  let ?w1 = "prepare_clean inp w"
  let ?loc = "getLocater (scope ?w1)"
  obtain r sc2 where l: "load ext (scope ?w1) inp ?loc = (r, sc2)"
    by (metis prod.collapse)
  show ?thesis
  proof (cases r)
    case (Inl e)
    then show ?thesis using l by (simp add: prepare_def Let_def)
  next
    case (Inr txs)
    let ?w2 = "?w1\<lparr>scope := sc2\<rparr>"
    obtain lkG cbi1 px1 jn1 where g: "create store (Graphic inp) makeGraphic
        (lookup_Graphic (scope ?w2), [], pixi ?w2, journal ?w2) = (lkG, cbi1, px1, jn1)"
      by (metis prod_cases4)
    obtain lkS cbi2 px2 jn2 where s: "create store (Sprite inp) (makeSprite txs ?loc)
        (lookup_Sprite (scope ?w2), cbi1, px1, jn1) = (lkS, cbi2, px2, jn2)"
      by (metis prod_cases4)
    let ?cv = "configureVisuals ext store inp (makeSprite txs ?loc) makeGraphic ?w2"
    have cv: "journal (snd ?cv) = jn2"
      using configureVisuals_registries [OF g s, of ext] by simp
    have "destroyed jn1 = destroyed (journal ?w1)"
      using create_loop_destroyed [OF _ g [unfolded create_entries]]
      by (simp add: makeGraphic_def Let_def)
    moreover have "destroyed jn2 = destroyed jn1"
      using create_loop_destroyed [OF _ s [unfolded create_entries]]
      by (simp add: makeSprite_def Let_def)
    moreover have "journal (snd (prepare ext store inp w)) = jn2"
    proof (cases ?cv)
      case (Pair r0 w3)
      then show ?thesis
        using cv l Inr prepare_finish_journal [of ext inp w3]
        by (cases r0) (simp_all add: prepare_def Let_def)
    qed
    ultimately show ?thesis by simp
  qed
qed


text \<open>
  C9. When the section of a kind (Sprite, Graphic or Filter) is undefined, \<open>clean\<close>
  returns at once: registry, renderer and log are as before. In \<open>prepare\<close> the registry
  of that kind, with its four views and so its tag buckets, is unchanged by the cleanup
  statements, although none of its identifiers is in the new snapshot, and the objects
  destroyed are those of the other kinds only; the rest of \<open>prepare\<close> destroys nothing.
\<close>

theorem clean_skipped_for_undefined_section:
  "clean None lk px jn = (lk, px, jn)
   \<and> destroyed (journal (snd (prepare ext store inp w))) = destroyed (journal (prepare_clean inp w))
   \<and> (Sprite inp = None \<longrightarrow>
        lookup_Sprite (scope (prepare_clean inp w)) = lookup_Sprite (scope w)
        \<and> destroyed (journal (prepare_clean inp w)) =
            destroyed (journal w)
              @ map snd (absent_entries (Graphic inp) (lookup_Graphic (scope w)))
              @ map snd (absent_entries (Filter inp) (lookup_Filter (scope w))))
   \<and> (Graphic inp = None \<longrightarrow>
        lookup_Graphic (scope (prepare_clean inp w)) = lookup_Graphic (scope w)
        \<and> destroyed (journal (prepare_clean inp w)) =
            destroyed (journal w)
              @ map snd (absent_entries (Sprite inp) (lookup_Sprite (scope w)))
              @ map snd (absent_entries (Filter inp) (lookup_Filter (scope w))))
   \<and> (Filter inp = None \<longrightarrow>
        lookup_Filter (scope (prepare_clean inp w)) = lookup_Filter (scope w)
        \<and> destroyed (journal (prepare_clean inp w)) =
            destroyed (journal w)
              @ map snd (absent_entries (Sprite inp) (lookup_Sprite (scope w)))
              @ map snd (absent_entries (Graphic inp) (lookup_Graphic (scope w))))"
  by (simp add: prepare_clean_lookups prepare_clean_journal prepare_destroyed)
     (simp add: clean_def absent_entries_def)

theorem clean_skipped_for_undefined_section_witness:
  "Sprite snapshot_without_sprites = None
   \<and> byIdentifier (lookup_Sprite (scope world_ab)) = [(''a'', 2), (''b'', 3)]
   \<and> lookup_Sprite (scope (prepare_clean snapshot_without_sprites world_ab)) = lookup_Sprite (scope world_ab)
   \<and> destroyed (journal (prepare_clean snapshot_without_sprites world_ab)) = []
   \<and> destroyed (journal (snd (prepare idle_externals (\<lambda>_. plain_config) snapshot_without_sprites world_ab))) = []"
proof -
  have s: "Sprite snapshot_without_sprites = None"
    by code_simp
  have w: "byIdentifier (lookup_Sprite (scope world_ab)) = [(''a'', 2), (''b'', 3)]"
    by code_simp
  have d: "destroyed (journal world_ab) = []"
    by code_simp
  have g: "absent_entries (Graphic snapshot_without_sprites) (lookup_Graphic (scope world_ab)) = []"
    by code_simp
  have f: "absent_entries (Filter snapshot_without_sprites) (lookup_Filter (scope world_ab)) = []"
    by code_simp
  show ?thesis
    using clean_skipped_for_undefined_section
            [where inp = snapshot_without_sprites and w = world_ab and ext = idle_externals
               and store = "\<lambda>_. plain_config"] s w d g f
    by simp
qed

end
